theory Spec2Isabelle
  imports Complex_Main
begin

section \<open>Data model\<close>

text \<open>
  A Go \<^verbatim>\<open>string\<close> is a sequence of bytes: it is modelled by \<^typ>\<open>string\<close>, whose
  characters are bytes, so \<^term>\<open>length s\<close> is Go's \<^verbatim>\<open>len(s)\<close>. A \<^verbatim>\<open>rune\<close> is a
  code point; the runes of this program come from \<^verbatim>\<open>[]rune(s)\<close>, from a byte or from
  a literal, so they are never negative and are modelled by \<^typ>\<open>nat\<close>. Go's \<^verbatim>\<open>int\<close>
  is \<^typ>\<open>int\<close> (no counter of this program comes near 64 bits).
\<close>

type_synonym rune = nat

subsection \<open>float64\<close>

text \<open>
  A \<^verbatim>\<open>float64\<close> is an IEEE 754 double: a finite value, given by the rational number it
  denotes (\<open>Finite 0\<close> is +0), the negative zero, an infinity or a NaN. The program does
  two things with one: it divides it by the constant 60.0 and it compares it with a
  constant. Both follow the standard: the quotient is the exact quotient rounded to the
  nearest double, ties to the even mantissa, and a comparison with a NaN is false.
\<close>

datatype float64 = Finite rat | NegZero | PosInf | NegInf | NaN

text \<open>The number of binary digits of a positive integer.\<close>

function bitlen :: "int \<Rightarrow> int" where
  "bitlen k = (if k \<le> 0 then 0 else 1 + bitlen (k div 2))"
  by pat_completeness auto
termination
  by (relation "measure nat") auto

declare bitlen.simps [simp del]

definition pow2 :: "int \<Rightarrow> rat" where
  "pow2 e = (if 0 \<le> e then 2 ^ nat e else 1 / 2 ^ nat (- e))"

text \<open>The binary exponent of a positive rational \<open>a\<close>: \<open>2 ^ e \<le> a < 2 ^ (e + 1)\<close>.\<close>

definition ilog2 :: "rat \<Rightarrow> int" where
  "ilog2 a =
     (let (p, d) = quotient_of a;
          e = bitlen p - bitlen d
      in if pow2 e \<le> a then e else e - 1)"

text \<open>The nearest integer, a tie going to the even one.\<close>

definition roundEven :: "rat \<Rightarrow> int" where
  "roundEven m =
     (let n = \<lfloor>m\<rfloor>; fr = m - of_int n
      in if fr < 1 / 2 then n
         else if 1 / 2 < fr then n + 1
         else if even n then n else n + 1)"

text \<open>The power \<open>2 ^ 1024\<close>, the least magnitude that a rounding turns into an infinity.\<close>

definition overflow64 :: rat where
  "overflow64 = 179769313486231590772930519078902473361797697894230657273430081157732675805500963132708477322407536021120113879871393357658789768814416622492847430639474124377767893424865485276302219601246094119453082952085005768838150682342462881473913110540827237163350510684586298239947245938479716304835356329624224137216"

text \<open>
  The double nearest to a rational number: 53 binary digits from the exponent of the
  number, or from the exponent -1022 for a subnormal result.
\<close>

definition round64 :: "rat \<Rightarrow> float64" where
  "round64 q =
     (if q = 0 then Finite 0
      else (let a = \<bar>q\<bar>;
                e = max (ilog2 a) (- 1022);
                ulp = pow2 (e - 52);
                r = of_int (roundEven (a / ulp)) * ulp
            in if overflow64 \<le> r then (if q < 0 then NegInf else PosInf)
               else if r = 0 then (if q < 0 then NegZero else Finite 0)
               else Finite (if q < 0 then - r else r)))"

text \<open>The quotient \<^verbatim>\<open>f / 60.0\<close>.\<close>

fun div60 :: "float64 \<Rightarrow> float64" where
  "div60 (Finite q) = round64 (q / 60)"
| "div60 NegZero = NegZero"
| "div60 PosInf = PosInf"
| "div60 NegInf = NegInf"
| "div60 NaN = NaN"

declare div60.simps [simp del]

text \<open>
  The comparison \<^verbatim>\<open>x < y\<close>: the two zeros are equal, an infinity is beyond every finite
  value, a NaN is not comparable.
\<close>

fun f64_key :: "float64 \<Rightarrow> (int \<times> rat) option" where
  "f64_key (Finite q) = Some (0, q)"
| "f64_key NegZero = Some (0, 0)"
| "f64_key PosInf = Some (1, 0)"
| "f64_key NegInf = Some (- 1, 0)"
| "f64_key NaN = None"

definition f64_less :: "float64 \<Rightarrow> float64 \<Rightarrow> bool" where
  "f64_less x y =
     (case (f64_key x, f64_key y) of
        (Some (a, p), Some (b, q)) \<Rightarrow> a < b \<or> (a = b \<and> p < q)
      | _ \<Rightarrow> False)"

subsection \<open>Records and constants\<close>

datatype error =
    errCannotParseIni
  | errCannotParseEstimate
  | errIni string
  | errIndexOutOfRange

record ToDoComment =
  Type :: string
  Title :: string
  Body :: string
  File :: string
  Line :: int
  Issue :: int
  Category :: string
  Estimate :: float64

text \<open>The constant 0.01, as the \<^verbatim>\<open>float64\<close> the comparison converts it to.\<close>

definition estimateEpsilon :: float64 where
  "estimateEpsilon = round64 (1 / 100)"

definition commentPrefixes :: "string list" where
  "commentPrefixes = [''TODO: '', ''FIXME: '', ''BUG: '', ''HACK: '', ''URGENT: '', ''REFS: '']"

definition categoryIniKey :: string where
  "categoryIniKey = ''category''"

definition issueIniKey :: string where
  "issueIniKey = ''issue''"

definition estimateIniKey :: string where
  "estimateIniKey = ''estimate''"

section \<open>The Go library, as far as the program uses it\<close>

subsection \<open>Package unicode\<close>

text \<open>
  \<^verbatim>\<open>unicode.IsSpace\<close>: the Latin-1 cases of its switch, then the White\_Space table.
\<close>

definition IsSpace :: "rune \<Rightarrow> bool" where
  "IsSpace r =
     (if r \<le> 255 then r \<in> {9, 10, 11, 12, 13, 32, 133, 160}
      else r = 5760 \<or> (8192 \<le> r \<and> r \<le> 8202) \<or> r = 8232 \<or> r = 8233
        \<or> r = 8239 \<or> r = 8287 \<or> r = 12288)"

text \<open>
  \<^verbatim>\<open>unicode.IsLetter\<close> on Latin-1, the only range \<^verbatim>\<open>parseEstimate\<close> calls it on
  (its argument is one byte of the string): A-Z, a-z, U+00AA, U+00B5, U+00BA,
  U+00C0-U+00D6, U+00D8-U+00F6, U+00F8-U+00FF.
\<close>

definition IsLetter :: "rune \<Rightarrow> bool" where
  "IsLetter r =
     ((65 \<le> r \<and> r \<le> 90) \<or> (97 \<le> r \<and> r \<le> 122) \<or> r = 170 \<or> r = 181 \<or> r = 186
      \<or> (192 \<le> r \<and> r \<le> 214) \<or> (216 \<le> r \<and> r \<le> 246) \<or> (248 \<le> r \<and> r \<le> 255))"

subsection \<open>Package unicode/utf8 and the conversions between strings and runes\<close>

definition RuneError :: rune where
  "RuneError = 65533"

definition cont :: "nat \<Rightarrow> bool" where
  "cont b = (128 \<le> b \<and> b \<le> 191)"

text \<open>
  \<^verbatim>\<open>utf8.DecodeRune\<close> on a non-empty sequence of bytes: the rune and its width. An
  invalid or short encoding is \<^const>\<open>RuneError\<close> of width 1.
\<close>

fun DecodeRune :: "nat list \<Rightarrow> rune \<times> nat" where
  "DecodeRune [] = (RuneError, 0)"
| "DecodeRune (b0 # bs) =
     (if b0 < 128 then (b0, 1)
      else if 194 \<le> b0 \<and> b0 \<le> 223 then
        (case bs of
           b1 # _ \<Rightarrow> if cont b1 then ((b0 mod 32) * 64 + b1 mod 64, 2) else (RuneError, 1)
         | _ \<Rightarrow> (RuneError, 1))
      else if 224 \<le> b0 \<and> b0 \<le> 239 then
        (case bs of
           b1 # b2 # _ \<Rightarrow>
             if (if b0 = 224 then 160 else 128) \<le> b1 \<and> b1 \<le> (if b0 = 237 then 159 else 191)
                \<and> cont b2
             then ((b0 mod 16) * 4096 + (b1 mod 64) * 64 + b2 mod 64, 3)
             else (RuneError, 1)
         | _ \<Rightarrow> (RuneError, 1))
      else if 240 \<le> b0 \<and> b0 \<le> 244 then
        (case bs of
           b1 # b2 # b3 # _ \<Rightarrow>
             if (if b0 = 240 then 144 else 128) \<le> b1 \<and> b1 \<le> (if b0 = 244 then 143 else 191)
                \<and> cont b2 \<and> cont b3
             then ((b0 mod 8) * 262144 + (b1 mod 64) * 4096 + (b2 mod 64) * 64 + b3 mod 64, 4)
             else (RuneError, 1)
         | _ \<Rightarrow> (RuneError, 1))
      else (RuneError, 1))"

text \<open>
  The string cut into its encoded runes, front to back, as \<^verbatim>\<open>range s\<close> and
  \<^verbatim>\<open>[]rune(s)\<close> read it: each rune with the bytes that encode it. The first
  argument counts the bytes still to skip of the rune decoded last.
\<close>

fun chunks_from :: "nat \<Rightarrow> string \<Rightarrow> (rune \<times> string) list" where
  "chunks_from k [] = []"
| "chunks_from k (c # cs) =
     (if 0 < k then chunks_from (k - 1) cs
      else (let (r, n) = DecodeRune (map of_char (c # cs))
            in (r, take n (c # cs)) # chunks_from (n - 1) cs))"

definition chunks :: "string \<Rightarrow> (rune \<times> string) list" where
  "chunks s = chunks_from 0 s"

definition runes_of :: "string \<Rightarrow> rune list" where
  "runes_of s = map fst (chunks s)"

text \<open>\<^verbatim>\<open>utf8.EncodeRune\<close>, and \<^verbatim>\<open>string(runes)\<close>.\<close>

definition EncodeRune :: "rune \<Rightarrow> string" where
  "EncodeRune r =
     (if r < 128 then [char_of r]
      else if r < 2048 then [char_of (192 + r div 64), char_of (128 + r mod 64)]
      else if (55296 \<le> r \<and> r \<le> 57343) \<or> 1114111 < r then
        [char_of (239::nat), char_of (191::nat), char_of (189::nat)]
      else if r < 65536 then
        [char_of (224 + r div 4096), char_of (128 + (r div 64) mod 64), char_of (128 + r mod 64)]
      else
        [char_of (240 + r div 262144), char_of (128 + (r div 4096) mod 64),
         char_of (128 + (r div 64) mod 64), char_of (128 + r mod 64)])"

definition string_of :: "rune list \<Rightarrow> string" where
  "string_of rs = concat (map EncodeRune rs)"

subsection \<open>Packages strings and strconv\<close>

text \<open>\<^verbatim>\<open>strings.Contains\<close>: the second string occurs somewhere in the first.\<close>

fun Contains :: "string \<Rightarrow> string \<Rightarrow> bool" where
  "Contains [] substr = (substr = [])"
| "Contains (c # cs) substr =
     (if take (length substr) (c # cs) = substr then True else Contains cs substr)"

text \<open>\<^verbatim>\<open>strings.Join\<close>.\<close>

fun Join :: "string list \<Rightarrow> string \<Rightarrow> string" where
  "Join [] sep = []"
| "Join [e] sep = e"
| "Join (e # es) sep = e @ sep @ Join es sep"

text \<open>
  \<^verbatim>\<open>strings.TrimSpace\<close>: the string without its leading and trailing white space,
  white space being the encoded runes for which \<^const>\<open>IsSpace\<close> holds.
\<close>

definition TrimSpace :: "string \<Rightarrow> string" where
  "TrimSpace s =
     concat (map snd (rev (dropWhile (\<lambda>c. IsSpace (fst c))
       (rev (dropWhile (\<lambda>c. IsSpace (fst c)) (chunks s))))))"

text \<open>
  \<^verbatim>\<open>strings.Fields\<close>: the maximal runs of runes that are not white space. The first
  argument is the field being read.
\<close>

fun fields_from :: "string \<Rightarrow> (rune \<times> string) list \<Rightarrow> string list" where
  "fields_from w [] = (if w = [] then [] else [w])"
| "fields_from w (c # cs) =
     (if IsSpace (fst c) then (if w = [] then fields_from [] cs else w # fields_from [] cs)
      else fields_from (w @ snd c) cs)"

definition Fields :: "string \<Rightarrow> string list" where
  "Fields s = fields_from [] (chunks s)"

definition isDigit :: "char \<Rightarrow> bool" where
  "isDigit c = (48 \<le> (of_char c :: nat) \<and> (of_char c :: nat) \<le> 57)"

fun digitsValue :: "nat \<Rightarrow> string \<Rightarrow> nat" where
  "digitsValue acc [] = acc"
| "digitsValue acc (c # cs) = digitsValue (acc * 10 + (of_char c - 48)) cs"

text \<open>
  The sign \<^verbatim>\<open>strconv\<close> allows in front of a number: whether it is a minus, and the rest.
\<close>

definition signOf :: "string \<Rightarrow> bool \<times> string" where
  "signOf s =
     (case s of
        [] \<Rightarrow> (False, [])
      | c # cs \<Rightarrow>
          if c = CHR ''-'' then (True, cs) else if c = CHR ''+'' then (False, cs) else (False, s))"

text \<open>
  \<^verbatim>\<open>strconv.Atoi\<close> with a 64-bit \<^verbatim>\<open>int\<close>: an optional sign and at least one decimal
  digit, nothing else; a value outside the range of \<^verbatim>\<open>int\<close> is an error.
  \<^const>\<open>None\<close> is a non-nil \<^verbatim>\<open>err\<close>.
\<close>

definition Atoi :: "string \<Rightarrow> int option" where
  "Atoi s =
     (let (neg, ds) = signOf s in
      if ds = [] \<or> \<not> list_all isDigit ds then None
      else (let n = int (digitsValue 0 ds); v = (if neg then - n else n)
            in if - (2 ^ 63) \<le> v \<and> v < 2 ^ 63 then Some v else None))"

subsection \<open>The library functions the program is parametrised by\<close>

text \<open>
  The remaining library functions are tables or third-party code, and a \<^verbatim>\<open>float64\<close>
  parser: the program takes them as parameters, so that every general theorem below holds
  whatever they compute.
  \<^item> \<open>ToUpper\<close> is \<^verbatim>\<open>unicode.ToUpper\<close>;
  \<^item> \<open>ParseFloat\<close> is \<^verbatim>\<open>strconv.ParseFloat(s, 64)\<close>, \<^const>\<open>None\<close> when it returns an error;
  \<^item> \<open>goiniParse\<close> is \<^verbatim>\<open>goini.New().Parse([]byte(line), " ", "=")\<close>: the message of its
    error, or what \<^verbatim>\<open>ini.Get\<close> then answers for each key;
  \<^item> \<open>md5hex\<close> is the hexadecimal MD5 digest of a text;
  \<^item> \<open>Rel\<close> is \<^verbatim>\<open>filepath.Rel\<close>, \<^const>\<open>None\<close> when it returns an error.
\<close>

record library =
  ToUpper :: "rune \<Rightarrow> rune"
  ParseFloat :: "string \<Rightarrow> float64 option"
  goiniParse :: "string \<Rightarrow> string + (string \<Rightarrow> string option)"
  md5hex :: "string \<Rightarrow> string"
  Rel :: "string \<Rightarrow> string \<Rightarrow> string option"

section \<open>The program\<close>

subsection \<open>parseComment\<close>

definition isCommentRune :: "rune \<Rightarrow> bool" where
  "isCommentRune r =
     (r = of_char CHR ''/'' \<or> r = of_char CHR ''#'' \<or> r = of_char CHR ''%''
      \<or> r = of_char CHR '';'' \<or> r = of_char CHR ''*'')"

text \<open>The two loops that skip white space forwards, from index \<open>i\<close>.\<close>

function skipSpace :: "rune list \<Rightarrow> nat \<Rightarrow> nat" where
  "skipSpace runes i =
     (if i < length runes \<and> IsSpace (runes ! i) then skipSpace runes (i + 1) else i)"
  by pat_completeness auto
termination
  by (relation "measure (\<lambda>(runes, i). length runes - i)") auto

text \<open>The loop that skips the comment symbols and records that it saw one.\<close>

function skipCommentRunes :: "rune list \<Rightarrow> nat \<Rightarrow> bool \<Rightarrow> nat \<times> bool" where
  "skipCommentRunes runes i hasComment =
     (if i < length runes \<and> isCommentRune (runes ! i) then skipCommentRunes runes (i + 1) True
      else (i, hasComment))"
  by pat_completeness auto
termination
  by (relation "measure (\<lambda>(runes, i, hasComment). length runes - i)") auto

text \<open>The loop that skips white space backwards, from index \<open>j\<close> down to \<open>i\<close>.\<close>

function skipSuffix :: "rune list \<Rightarrow> int \<Rightarrow> int \<Rightarrow> int" where
  "skipSuffix runes i j =
     (if j > i \<and> IsSpace (runes ! nat j) then skipSuffix runes i (j - 1) else j)"
  by pat_completeness auto
termination
  by (relation "measure (\<lambda>(runes, i, j). nat (j - i))") auto

declare skipSpace.simps [simp del]
declare skipCommentRunes.simps [simp del]
declare skipSuffix.simps [simp del]

text \<open>\<^const>\<open>None\<close> is the nil slice, \<^term>\<open>Some []\<close> the empty slice that is not nil.\<close>

definition parseComment :: "string \<Rightarrow> rune list option" where
  "parseComment line =
     (let runes = runes_of line;
          size = int (length runes);
          i = skipSpace runes 0;
          (i, hasComment) = skipCommentRunes runes i False
      in if \<not> hasComment then None
         else (let i = int (skipSpace runes i);
                   j = skipSuffix runes i (size - 1)
               in if i \<ge> size \<or> j < 0 \<or> i \<ge> j then Some []
                  else Some (take (nat (j + 1 - i)) (drop (nat i) runes))))"

subsection \<open>parseToDoTitle\<close>

text \<open>
  \<^verbatim>\<open>startsWith\<close> reads \<^verbatim>\<open>s[i]\<close> for the index of every rune of the prefix it ranges
  over; reading past the end of \<open>s\<close> is Go's run-time panic, the value
  \<^term>\<open>Inl errIndexOutOfRange\<close> here.
\<close>

fun startsWith_from :: "library \<Rightarrow> rune list \<Rightarrow> nat \<Rightarrow> rune list \<Rightarrow> error + bool" where
  "startsWith_from L s i [] = Inr True"
| "startsWith_from L s i (p # pr) =
     (if i < length s then
        (if ToUpper L (s ! i) \<noteq> p then Inr False else startsWith_from L s (i + 1) pr)
      else Inl errIndexOutOfRange)"

definition startsWith :: "library \<Rightarrow> rune list \<Rightarrow> rune list \<Rightarrow> error + bool" where
  "startsWith L s pr = startsWith_from L s 0 pr"

text \<open>
  The loop over the prefixes. The two slices panic as well when their bounds are out of
  range.
\<close>

fun parseToDoTitle_from ::
  "library \<Rightarrow> rune list \<Rightarrow> string list \<Rightarrow> error + (rune list \<times> rune list) option" where
  "parseToDoTitle_from L line [] = Inr None"
| "parseToDoTitle_from L line (pr # prs) =
     (let size = length line; prlen = length pr in
      if size > prlen then
        (case startsWith L line (runes_of pr) of
           Inl e \<Rightarrow> Inl e
         | Inr True \<Rightarrow>
             if 2 \<le> prlen \<and> prlen - 2 \<le> length (runes_of pr)
             then Inr (Some (take (prlen - 2) (runes_of pr), drop prlen line))
             else Inl errIndexOutOfRange
         | Inr False \<Rightarrow> parseToDoTitle_from L line prs)
      else parseToDoTitle_from L line prs)"

definition parseToDoTitle ::
  "library \<Rightarrow> rune list \<Rightarrow> error + (rune list \<times> rune list) option" where
  "parseToDoTitle L line =
     (if length line = 0 then Inr None else parseToDoTitle_from L line commentPrefixes)"

subsection \<open>parseEstimate\<close>

definition parseEstimate :: "library \<Rightarrow> string \<Rightarrow> error + float64" where
  "parseEstimate L estimate =
     (if length estimate = 0 then Inl errCannotParseEstimate
      else (let lastRune = (of_char (estimate ! (length estimate - 1)) :: rune) in
        if IsLetter lastRune \<and> lastRune \<noteq> of_char CHR ''m'' \<and> lastRune \<noteq> of_char CHR ''h''
        then Inl errCannotParseEstimate
        else (let s = (if IsLetter lastRune then take (length estimate - 1) estimate
                       else estimate)
              in case ParseFloat L s of
                   Some f \<Rightarrow> if lastRune = of_char CHR ''m'' then Inr (div60 f) else Inr f
                 | None \<Rightarrow> Inl errCannotParseEstimate)))"

subsection \<open>parseIniProperties\<close>

text \<open>
  The method changes the record it is called on and returns an error or nil: the model
  returns the record as the method leaves it, and the error (\<^const>\<open>None\<close> is nil).
\<close>

definition parseIniProperties ::
  "library \<Rightarrow> ToDoComment \<Rightarrow> string \<Rightarrow> ToDoComment \<times> error option" where
  "parseIniProperties L t line =
     (if \<not> Contains line ''='' then (t, Some errCannotParseIni)
      else
        (case goiniParse L line of
           Inl msg \<Rightarrow> (t, Some (errIni msg))
         | Inr ini \<Rightarrow>
             (let t1 = (case ini categoryIniKey of
                          Some v \<Rightarrow> t\<lparr>Category := v\<rparr>
                        | None \<Rightarrow> t);
                  t2 = (case ini issueIniKey of
                          Some v \<Rightarrow> (case Atoi v of Some i \<Rightarrow> t1\<lparr>Issue := i\<rparr> | None \<Rightarrow> t1)
                        | None \<Rightarrow> t1);
                  t3 = (case ini estimateIniKey of
                          Some v \<Rightarrow>
                            (case parseEstimate L v of
                               Inr f \<Rightarrow> t2\<lparr>Estimate := f\<rparr>
                             | Inl e \<Rightarrow> t2)
                        | None \<Rightarrow> t2)
              in if length (Category t3) = 0 \<and> Issue t3 = 0
                    \<and> f64_less (Estimate t3) estimateEpsilon
                 then (t3, Some errCannotParseIni)
                 else (t3, None))))"

subsection \<open>NewComment and accountComment\<close>

definition NewComment ::
  "library \<Rightarrow> string \<Rightarrow> int \<Rightarrow> string \<Rightarrow> string list \<Rightarrow> ToDoComment option" where
  "NewComment L path lineNo ctype body =
     (if length body = 0 then None
      else
        (let t = \<lparr>Type = ctype, Title = body ! 0, Body = [], File = path, Line = lineNo,
                  Issue = 0, Category = [], Estimate = Finite 0\<rparr>
         in if length body > 1 then
              (let (t', err) = parseIniProperties L t (body ! 1);
                   commentBody = (if err = None then Join (drop 2 body) [CHR 0x0A]
                                  else Join (drop 1 body) [CHR 0x0A])
               in Some (t'\<lparr>Body := TrimSpace commentBody\<rparr>))
            else Some t))"

text \<open>
  \<^verbatim>\<open>accountComment\<close> starts one \<^verbatim>\<open>addComment\<close> goroutine for the record, if there is
  one: the model returns the records handed over, none or one.
\<close>

definition accountComment ::
  "library \<Rightarrow> string \<Rightarrow> string \<Rightarrow> int \<Rightarrow> string \<Rightarrow> string list \<Rightarrow> ToDoComment list" where
  "accountComment L root' path lineNo ctype body =
     (let relativePath = (case Rel L root' path of Some p \<Rightarrow> p | None \<Rightarrow> path)
      in case NewComment L relativePath lineNo ctype body of
           Some c \<Rightarrow> [c]
         | None \<Rightarrow> [])"

subsection \<open>parseFile\<close>

text \<open>
  The local variables of \<^verbatim>\<open>parseFile\<close>, and \<open>spawned\<close>: the records it has handed to
  \<^verbatim>\<open>addComment\<close> goroutines so far, in the order of the calls.
\<close>

record scan =
  todo :: "string list"
  lastType :: string
  lastStart :: int
  lineNumber :: int
  spawned :: "ToDoComment list"

text \<open>The body of the loop, for one line \<^verbatim>\<open>scanner.Text()\<close> returns.\<close>

definition scanLine :: "library \<Rightarrow> string \<Rightarrow> string \<Rightarrow> scan \<Rightarrow> string \<Rightarrow> error + scan" where
  "scanLine L root' path st0 line =
     (let st = st0\<lparr>lineNumber := lineNumber st0 + 1\<rparr> in
      case parseComment line of
        Some c \<Rightarrow>
          (case parseToDoTitle L c of
             Inl e \<Rightarrow> Inl e
           | Inr (Some (ctype, title)) \<Rightarrow>
               (let st1 = (if lastType st \<noteq> [] then
                             st\<lparr>spawned := spawned st @
                                accountComment L root' path (lastStart st) (lastType st) (todo st)\<rparr>
                           else st)
                in Inr (st1\<lparr>lastType := string_of ctype,
                              lastStart := lineNumber st1 - 1,
                              todo := [] @ [string_of title]\<rparr>))
           | Inr None \<Rightarrow>
               (if lastType st \<noteq> [] then Inr (st\<lparr>todo := todo st @ [string_of c]\<rparr>)
                else Inr st))
      | None \<Rightarrow>
          (if lastType st \<noteq> [] then
             Inr (st\<lparr>spawned := spawned st @
                    accountComment L root' path (lastStart st) (lastType st) (todo st),
                  lastType := []\<rparr>)
           else Inr st))"

fun scanLines :: "library \<Rightarrow> string \<Rightarrow> string \<Rightarrow> scan \<Rightarrow> string list \<Rightarrow> error + scan" where
  "scanLines L root' path st [] = Inr st"
| "scanLines L root' path st (line # rest) =
     (case scanLine L root' path st line of
        Inl e \<Rightarrow> Inl e
      | Inr st' \<Rightarrow> scanLines L root' path st' rest)"

text \<open>The statement after the loop, for the item at the end of the file.\<close>

definition flushLast :: "library \<Rightarrow> string \<Rightarrow> string \<Rightarrow> scan \<Rightarrow> ToDoComment list" where
  "flushLast L root' path st =
     (if lastType st \<noteq> [] then
        spawned st @ accountComment L root' path (lastStart st) (lastType st) (todo st)
      else spawned st)"

text \<open>
  The file is the lines its scanner returns, \<^const>\<open>None\<close> when it cannot be opened. The
  result is the records handed to \<^verbatim>\<open>addComment\<close>, or the panic of the goroutine.
\<close>

definition parseFile ::
  "library \<Rightarrow> string \<Rightarrow> string \<Rightarrow> string list option \<Rightarrow> error + ToDoComment list" where
  "parseFile L root' path file =
     (case file of
        None \<Rightarrow> Inr []
      | Some lines \<Rightarrow>
          (case scanLines L root' path
                  \<lparr>todo = [], lastType = [], lastStart = 0, lineNumber = 0, spawned = []\<rparr> lines of
             Inl e \<Rightarrow> Inl e
           | Inr st \<Rightarrow> Inr (flushLast L root' path st)))"

text \<open>
  The two tests the loop makes on a line, as one: the line is a comment and its inner text
  starts a block. The value is the type and the title as the loop stores them.
\<close>

definition titleLine :: "library \<Rightarrow> string \<Rightarrow> (string \<times> string) option" where
  "titleLine L line =
     (case parseComment line of
        None \<Rightarrow> None
      | Some c \<Rightarrow>
          (case parseToDoTitle L c of
             Inr (Some (ctype, title)) \<Rightarrow> Some (string_of ctype, string_of title)
           | Inr None \<Rightarrow> None
           | Inl e \<Rightarrow> None))"

subsection \<open>The generator and addComment\<close>

text \<open>
  The fields of \<^verbatim>\<open>ToDoGenerator\<close> that \<^verbatim>\<open>addComment\<close> reads and writes. The lock
  makes the goroutines run its critical section one after the other, in an order the
  scheduler chooses: a run of the program is a sequence of calls.
\<close>

record ToDoGenerator =
  root' :: string
  comments :: "ToDoComment list"
  minWords :: int
  minChars :: int
  addedMap :: "string \<Rightarrow> bool option"

definition NewToDoGenerator :: "string \<Rightarrow> int \<Rightarrow> int \<Rightarrow> ToDoGenerator" where
  "NewToDoGenerator absolutePath minWords' minChars' =
     \<lparr>root' = absolutePath, comments = [], minWords = minWords', minChars = minChars',
      addedMap = Map.empty\<rparr>"

definition countTitleWords :: "string \<Rightarrow> int" where
  "countTitleWords s = int (length (filter (\<lambda>w. length w > 2) (Fields s)))"

definition addComment :: "library \<Rightarrow> ToDoGenerator \<Rightarrow> ToDoComment \<Rightarrow> ToDoGenerator" where
  "addComment L td c =
     (let s = md5hex L (Title c @ Body c) in
      if addedMap td s \<noteq> None then td
      else if countTitleWords (Title c) \<ge> minWords td \<or> int (length (Title c)) \<ge> minChars td
        then td\<lparr>addedMap := (addedMap td)(s \<mapsto> True), comments := comments td @ [c]\<rparr>
        else td)"

section \<open>A library to run the program on\<close>

text \<open>
  The parameters at which the program is evaluated on concrete inputs below. Each covers
  the part of its library function that those inputs reach:
  \<^item> \<open>ToUpper_latin1\<close> is \<^verbatim>\<open>unicode.ToUpper\<close> on U+0000 to U+00FF, U+0131 and U+017F
    (the code points it maps to an ASCII letter are among these), unchanged elsewhere;
  \<^item> \<open>ParseFloat_decimal\<close> reads an optional sign, decimal digits and an optional point,
    with a digit somewhere, and returns the double nearest to the value of the literal, or
    an error when that is an infinity; it rejects everything else, also the exponents,
    hexadecimal literals, infinities and NaN that Go accepts;
  \<^item> \<open>goini_pairs\<close> is a parser of the kind of the third-party one, for the separators
    \<^verbatim>\<open>" "\<close> and \<^verbatim>\<open>"="\<close>: the line is split at every space; an empty piece and a piece starting with
    \<^verbatim>\<open>;\<close> or \<^verbatim>\<open>#\<close> are skipped; a piece in brackets opens a section; any other piece
    without \<^verbatim>\<open>=\<close> is an error; else the trimmed key gets the trimmed value, and
    \<^verbatim>\<open>Get\<close> answers from the section without a name;
  \<^item> the digest of a text is the text itself, which has no collisions;
  \<^item> \<open>Rel_below\<close> answers for a path below the root only.
\<close>

definition ToUpper_latin1 :: "rune \<Rightarrow> rune" where
  "ToUpper_latin1 r =
     (if 97 \<le> r \<and> r \<le> 122 then r - 32
      else if r = 181 then 924
      else if 224 \<le> r \<and> r \<le> 254 \<and> r \<noteq> 247 then r - 32
      else if r = 255 then 376
      else if r = 305 then 73
      else if r = 383 then 83
      else r)"

definition ParseFloat_decimal :: "string \<Rightarrow> float64 option" where
  "ParseFloat_decimal s =
     (let (neg, u) = signOf s;
          ip = takeWhile isDigit u;
          rest = dropWhile isDigit u;
          (fp, ok) = (case rest of
                        [] \<Rightarrow> ([], True)
                      | c # cs \<Rightarrow> if c = CHR ''.'' \<and> list_all isDigit cs then (cs, True)
                                  else ([], False))
      in if \<not> ok \<or> (ip = [] \<and> fp = []) then None
         else (let v = (of_nat (digitsValue 0 (ip @ fp)) / of_nat (10 ^ length fp) :: rat);
                   x = round64 (if neg then - v else v)
               in if x = PosInf \<or> x = NegInf then None
                  else if neg \<and> v = 0 then Some NegZero
                  else Some x))"

fun splitAt :: "char \<Rightarrow> string \<Rightarrow> string list" where
  "splitAt sep [] = [[]]"
| "splitAt sep (c # cs) =
     (if c = sep then [] # splitAt sep cs
      else (case splitAt sep cs of
              w # ws \<Rightarrow> (c # w) # ws
            | [] \<Rightarrow> [[c]]))"

fun goini_from ::
  "string \<Rightarrow> (string \<Rightarrow> string option) \<Rightarrow> string list \<Rightarrow> string + (string \<Rightarrow> string option)" where
  "goini_from sec kv [] = Inr kv"
| "goini_from sec kv (piece # pieces) =
     (let line = TrimSpace piece in
      if line = [] then goini_from sec kv pieces
      else if hd line = CHR '';'' \<or> hd line = CHR ''#'' then goini_from sec kv pieces
      else if hd line = CHR ''['' \<and> last line = CHR '']'' then
        (let sec' = butlast (tl line)
         in goini_from sec' (if sec' = [] then Map.empty else kv) pieces)
      else if CHR ''='' \<notin> set line then Inl line
      else (let k = TrimSpace (takeWhile (\<lambda>c. c \<noteq> CHR ''='') line);
                v = TrimSpace (tl (dropWhile (\<lambda>c. c \<noteq> CHR ''='') line))
            in goini_from sec (if sec = [] then kv(k \<mapsto> v) else kv) pieces))"

definition goini_pairs :: "string \<Rightarrow> string + (string \<Rightarrow> string option)" where
  "goini_pairs line = goini_from [] Map.empty (splitAt CHR '' '' line)"

definition Rel_below :: "string \<Rightarrow> string \<Rightarrow> string option" where
  "Rel_below base target =
     (if take (length base + 1) target = base @ ''/'' then Some (drop (length base + 1) target)
      else None)"

definition go_library :: library where
  "go_library =
     \<lparr>ToUpper = ToUpper_latin1, ParseFloat = ParseFloat_decimal, goiniParse = goini_pairs,
      md5hex = (\<lambda>text. text), Rel = Rel_below\<rparr>"

section \<open>The invariant of the loop of parseFile\<close>

text \<open>
  The title lines among the first \<open>k\<close> lines of a file, in the order of the file: for each
  its index (counted from 0), its type and its title.
\<close>

definition titlesUpTo :: "library \<Rightarrow> string list \<Rightarrow> nat \<Rightarrow> (int \<times> string \<times> string) list" where
  "titlesUpTo L lines k =
     concat (map (\<lambda>n. case titleLine L (lines ! n) of
                          None \<Rightarrow> []
                        | Some (ty, t) \<Rightarrow> [(int n, ty, t)]) [0..<k])"

text \<open>
  After \<^term>\<open>lineNumber st\<close> lines of the file: the records handed over, followed by
  the block that is open, if there is one, are the title lines read so far, one for one and
  in their order, each with the index of its line; the first line of the open block is its
  title.
\<close>

definition scan_inv :: "library \<Rightarrow> string list \<Rightarrow> scan \<Rightarrow> bool" where
  "scan_inv L lines st =
     (0 \<le> lineNumber st \<and> nat (lineNumber st) \<le> length lines
      \<and> (lastType st = [] \<or> todo st \<noteq> [])
      \<and> map (\<lambda>c. (Line c, Type c, Title c)) (spawned st)
          @ (if lastType st \<noteq> [] then [(lastStart st, lastType st, hd (todo st))] else [])
        = titlesUpTo L lines (nat (lineNumber st)))"

section \<open>Strings of ASCII characters\<close>

lemma chunks_from_ascii:
  "list_all (\<lambda>c. (of_char c :: nat) < 128) s \<Longrightarrow>
   chunks_from 0 s = map (\<lambda>c. (of_char c, [c])) s"
  by (induction s) simp_all

lemma runes_of_ascii:
  "list_all (\<lambda>c. (of_char c :: nat) < 128) s \<Longrightarrow> runes_of s = map of_char s"
  by (simp add: runes_of_def chunks_def chunks_from_ascii comp_def)

lemma string_of_ascii:
  "list_all (\<lambda>r. r < 128) rs \<Longrightarrow> string_of rs = map char_of rs"
  by (induction rs) (simp_all add: string_of_def EncodeRune_def)

lemma rune_m: "((of_char c :: nat) = 109) = (c = CHR ''m'')"
proof -
  have "(109::nat) = of_char CHR ''m''" by simp
  then show ?thesis by (simp only: of_char_eq_iff)
qed

lemma rune_h: "((of_char c :: nat) = 104) = (c = CHR ''h'')"
proof -
  have "(104::nat) = of_char CHR ''h''" by simp
  then show ?thesis by (simp only: of_char_eq_iff)
qed

section \<open>The title of a block\<close>

text \<open>
  Within the bounds of \<open>s\<close>, \<^const>\<open>startsWith_from\<close> compares the upper-cased runes of
  \<open>s\<close> from index \<open>i\<close> with the prefix, and does not panic.
\<close>

lemma startsWith_from_inbounds:
  "i + length pr \<le> length s \<Longrightarrow>
   startsWith_from L s i pr = Inr (map (ToUpper L) (take (length pr) (drop i s)) = pr)"
proof (induction pr arbitrary: i)
  case Nil
  then show ?case by simp
next
  case (Cons p pr)
  from Cons.prems have i: "i < length s" and rest: "(i + 1) + length pr \<le> length s"
    by simp_all
  from i have d: "drop i s = s ! i # drop (Suc i) s"
    by (simp add: Cons_nth_drop_Suc)
  show ?case
    using Cons.IH [OF rest] i by (auto simp: d)
qed

lemma startsWith_inbounds:
  "length pr \<le> length s \<Longrightarrow>
   startsWith L s pr = Inr (map (ToUpper L) (take (length pr) s) = pr)"
  using startsWith_from_inbounds [of 0 pr s L] by (simp add: startsWith_def)

text \<open>Without the caller's check of the length, the read past the end is there.\<close>

lemma startsWith_short_panics: "startsWith L [] [p] = Inl errIndexOutOfRange"
  by (simp add: startsWith_def)

text \<open>
  The loop over a list of ASCII prefixes of two characters or more returns what the first
  prefix that matches gives.
\<close>

lemma parseToDoTitle_from_find:
  "list_all (\<lambda>pr. 2 \<le> length pr \<and> list_all (\<lambda>c. (of_char c :: nat) < 128) pr) prs \<Longrightarrow>
   parseToDoTitle_from L line prs =
     Inr (case find (\<lambda>pr. length line > length pr
                      \<and> map (ToUpper L) (take (length pr) line) = runes_of pr) prs of
            None \<Rightarrow> None
          | Some pr \<Rightarrow> Some (runes_of (butlast (butlast pr)), drop (length pr) line))"
proof (induction prs)
  case Nil
  then show ?case by simp
next
  case (Cons pr prs)
  then have p: "list_all (\<lambda>c. (of_char c :: nat) < 128) pr" and len: "2 \<le> length pr"
    and ps: "list_all (\<lambda>pr. 2 \<le> length pr \<and> list_all (\<lambda>c. (of_char c :: nat) < 128) pr) prs"
    by simp_all
  from p have r: "runes_of pr = map of_char pr"
    by (simp add: runes_of_ascii)
  from p have "list_all (\<lambda>c. (of_char c :: nat) < 128) (butlast (butlast pr))"
    by (auto simp: list_all_iff dest: in_set_butlastD)
  then have b: "runes_of (butlast (butlast pr)) = take (length pr - 2) (map of_char pr)"
    by (simp add: runes_of_ascii butlast_conv_take take_map numeral_2_eq_2)
  show ?case
  proof (cases "length line > length pr")
    case True
    then have "startsWith L line (runes_of pr)
        = Inr (map (ToUpper L) (take (length pr) line) = runes_of pr)"
      using startsWith_inbounds [of "runes_of pr" line L] by (simp add: r)
    then show ?thesis
      using True Cons.IH [OF ps] len by (simp add: r b Let_def)
  next
    case False
    then show ?thesis
      using Cons.IH [OF ps] by (simp add: Let_def)
  qed
qed

lemma commentPrefixes_ascii:
  "list_all (\<lambda>pr. 2 \<le> length pr \<and> list_all (\<lambda>c. (of_char c :: nat) < 128) pr) commentPrefixes"
  by (simp add: commentPrefixes_def)

lemma parseToDoTitle_find:
  "parseToDoTitle L line =
     Inr (case find (\<lambda>pr. length line > length pr
                      \<and> map (ToUpper L) (take (length pr) line) = runes_of pr)
               commentPrefixes of
            None \<Rightarrow> None
          | Some pr \<Rightarrow> Some (runes_of (butlast (butlast pr)), drop (length pr) line))"
proof (cases "line = []")
  case True
  then show ?thesis
    by (simp add: parseToDoTitle_def commentPrefixes_def)
next
  case False
  then show ?thesis
    by (simp add: parseToDoTitle_def parseToDoTitle_from_find [OF commentPrefixes_ascii])
qed

text \<open>
  Claim C4. \<^verbatim>\<open>parseToDoTitle\<close> succeeds on an inner text exactly when the text is
  strictly longer than one of the six prefixes and its leading runes, each put through
  \<^verbatim>\<open>unicode.ToUpper\<close>, are that prefix. It then returns, for the first such prefix in
  the order of the list, the prefix without its last two characters as the tag and the
  rest of the text as the title. Whatever \<^verbatim>\<open>ToUpper\<close> computes.
\<close>

theorem parseToDoTitle_first_match:
  "parseToDoTitle L line =
     Inr (case find (\<lambda>pr. length line > length pr
                      \<and> map (ToUpper L) (take (length pr) line) = runes_of pr)
               commentPrefixes of
            None \<Rightarrow> None
          | Some pr \<Rightarrow> Some (runes_of (butlast (butlast pr)), drop (length pr) line))"
  by (rule parseToDoTitle_find)

text \<open>The first example of the specification, in lower case.\<close>

lemma parseToDoTitle_example:
  "parseToDoTitle go_library (runes_of ''todo: fix this'')
     = Inr (Some (runes_of ''TODO'', runes_of ''fix this''))"
  by (simp add: parseToDoTitle_def commentPrefixes_def runes_of_ascii startsWith_def
      go_library_def ToUpper_latin1_def)

text \<open>
  Claim C9. \<^verbatim>\<open>parseToDoTitle\<close> never reads out of bounds, on any input and whatever
  \<^verbatim>\<open>ToUpper\<close> computes: \<^verbatim>\<open>startsWith\<close> has no check of its own
  (\<open>startsWith_short_panics\<close>), but it is called only on a text longer than the prefix,
  where every \<^verbatim>\<open>s[i]\<close> is within bounds (\<open>startsWith_inbounds\<close>), and the two slices are
  within bounds too.
\<close>

theorem parseToDoTitle_no_panic:
  "\<exists>r. parseToDoTitle L line = Inr r"
  by (simp add: parseToDoTitle_find)

lemma EncodeRune_nonempty: "EncodeRune r \<noteq> []"
  by (simp add: EncodeRune_def)

lemma string_of_nonempty: "rs \<noteq> [] \<Longrightarrow> string_of rs \<noteq> []"
  by (cases rs) (simp_all add: string_of_def EncodeRune_nonempty)

lemma tags_nonempty:
  "pr \<in> set commentPrefixes \<Longrightarrow> runes_of (butlast (butlast pr)) \<noteq> []"
  by (auto simp add: commentPrefixes_def runes_of_ascii)

lemma parseToDoTitle_Some:
  assumes "parseToDoTitle L c = Inr (Some (ctype, title))"
  shows "ctype \<noteq> [] \<and> title \<noteq> []"
proof -
  from assms obtain pr where
    f: "find (\<lambda>pr. length c > length pr
          \<and> map (ToUpper L) (take (length pr) c) = runes_of pr) commentPrefixes = Some pr"
    and r: "ctype = runes_of (butlast (butlast pr))" "title = drop (length pr) c"
    by (auto simp add: parseToDoTitle_find split: option.splits)
  from f have "pr \<in> set commentPrefixes" and "length c > length pr"
    by (auto simp add: find_Some_iff)
  with r show ?thesis
    by (simp add: tags_nonempty)
qed

section \<open>Comment lines\<close>

text \<open>The loops over indices, in terms of the list.\<close>

lemma skipSpace_takeWhile:
  "i \<le> length xs \<Longrightarrow> skipSpace xs i = i + length (takeWhile IsSpace (drop i xs))"
proof (induction xs i rule: skipSpace.induct)
  case (1 runes i)
  show ?case
  proof (cases "i < length runes \<and> IsSpace (runes ! i)")
    case True
    then have d: "drop i runes = runes ! i # drop (Suc i) runes"
      by (simp add: Cons_nth_drop_Suc)
    from True "1.IH" have "skipSpace runes (i + 1)
        = i + 1 + length (takeWhile IsSpace (drop (i + 1) runes))"
      by simp
    with True d show ?thesis
      by (subst skipSpace.simps) simp
  next
    case False
    show ?thesis
    proof (cases "i < length runes")
      case True
      with False have "\<not> IsSpace (runes ! i)" by simp
      moreover from True have "drop i runes = runes ! i # drop (Suc i) runes"
        by (simp add: Cons_nth_drop_Suc)
      ultimately show ?thesis
        using False by (subst skipSpace.simps) simp
    next
      case False
      then show ?thesis
        by (subst skipSpace.simps) simp
    qed
  qed
qed

lemma skipCommentRunes_takeWhile:
  "i \<le> length xs \<Longrightarrow>
   skipCommentRunes xs i h =
     (i + length (takeWhile isCommentRune (drop i xs)),
      h \<or> takeWhile isCommentRune (drop i xs) \<noteq> [])"
proof (induction xs i h rule: skipCommentRunes.induct)
  case (1 runes i hasComment)
  show ?case
  proof (cases "i < length runes \<and> isCommentRune (runes ! i)")
    case True
    then have d: "drop i runes = runes ! i # drop (Suc i) runes"
      by (simp add: Cons_nth_drop_Suc)
    from True "1.IH" have "skipCommentRunes runes (i + 1) True
        = (i + 1 + length (takeWhile isCommentRune (drop (i + 1) runes)), True)"
      by simp
    with True d show ?thesis
      by (subst skipCommentRunes.simps) simp
  next
    case False
    show ?thesis
    proof (cases "i < length runes")
      case True
      with False have "\<not> isCommentRune (runes ! i)" by simp
      moreover from True have "drop i runes = runes ! i # drop (Suc i) runes"
        by (simp add: Cons_nth_drop_Suc)
      ultimately show ?thesis
        using False by (subst skipCommentRunes.simps) simp
    next
      case False
      then show ?thesis
        by (subst skipCommentRunes.simps) simp
    qed
  qed
qed

lemma skipSuffix_dropWhile:
  "0 \<le> i \<Longrightarrow> i \<le> j \<Longrightarrow> j < int (length xs) \<Longrightarrow>
   skipSuffix xs i j
     = i + int (length (dropWhile IsSpace (rev (take (nat (j - i)) (drop (Suc (nat i)) xs)))))"
proof (induction xs i j rule: skipSuffix.induct)
  case (1 runes i j)
  show ?case
  proof (cases "j > i")
    case False
    with "1.prems" have "j = i" by simp
    then show ?thesis
      by (subst skipSuffix.simps) simp
  next
    case True
    define k where "k = nat (j - i) - 1"
    from True have k: "nat (j - i) = Suc k" by (simp add: k_def)
    from True "1.prems" have len: "k < length (drop (Suc (nat i)) runes)"
      by (simp add: k_def)
    have "Suc (nat i) + k = nat j"
      using True "1.prems" by (simp add: k_def)
    then have idx: "drop (Suc (nat i)) runes ! k = runes ! nat j"
      using len by (simp add: nth_drop del: drop_Suc_Cons)
    have tk: "take (Suc k) (drop (Suc (nat i)) runes)
        = take k (drop (Suc (nat i)) runes) @ [runes ! nat j]"
      using len idx by (simp add: take_Suc_conv_app_nth)
    show ?thesis
    proof (cases "IsSpace (runes ! nat j)")
      case sp: True
      from True "1.prems" have "skipSuffix runes i (j - 1)
          = i + int (length (dropWhile IsSpace (rev (take (nat (j - 1 - i)) (drop (Suc (nat i)) runes)))))"
        using sp by (intro "1.IH") simp_all
      moreover have "nat (j - 1 - i) = k" by (simp add: k_def)
      ultimately show ?thesis
        using True sp by (subst skipSuffix.simps) (simp add: k tk)
    next
      case nsp: False
      then have "skipSuffix runes i j = j"
        by (subst skipSuffix.simps) simp
      moreover have "length (dropWhile IsSpace (rev (take (Suc k) (drop (Suc (nat i)) runes)))) = Suc k"
        using nsp len by (simp add: tk)
      ultimately show ?thesis
        using True by (simp add: k [symmetric])
    qed
  qed
qed

lemma dropWhile_snoc: "\<not> P x \<Longrightarrow> dropWhile P (ys @ [x]) = dropWhile P ys @ [x]"
  by (induction ys) simp_all

lemma take_length_dropWhile_rev:
  "take (length (dropWhile P (rev ys))) ys = rev (dropWhile P (rev ys))"
proof -
  define A where "A = rev (dropWhile P (rev ys))"
  define B where "B = rev (takeWhile P (rev ys))"
  have "A @ B = rev (takeWhile P (rev ys) @ dropWhile P (rev ys))"
    unfolding A_def B_def by (simp only: rev_append)
  then have "ys = A @ B" by simp
  then have "take (length A) ys = A" by simp
  then show ?thesis by (simp add: A_def)
qed

text \<open>
  What \<^verbatim>\<open>parseComment\<close> computes, for every line: with \<open>rs\<close> the runes after the
  leading white space, the line is no comment when \<open>rs\<close> starts with no comment symbol;
  else, with \<open>content\<close> the runes after the comment symbols without the white space at
  both ends, the result is \<open>content\<close> when it has two runes or more, and empty when it
  has one rune or none.
\<close>

lemma parseComment_content:
  "parseComment line =
     (let rs = dropWhile IsSpace (runes_of line);
          body = dropWhile IsSpace (dropWhile isCommentRune rs);
          content = rev (dropWhile IsSpace (rev body))
      in if takeWhile isCommentRune rs = [] then None
         else if length content \<le> 1 then Some [] else Some content)"
proof -
  define xs where "xs = runes_of line"
  define rs where "rs = dropWhile IsSpace xs"
  define ms where "ms = dropWhile isCommentRune rs"
  define body where "body = dropWhile IsSpace ms"
  define a where "a = length (takeWhile IsSpace xs)"
  define b where "b = a + length (takeWhile isCommentRune rs)"
  define i where "i = b + length (takeWhile IsSpace ms)"
  have rs: "drop a xs = rs"
    by (simp add: a_def rs_def dropWhile_eq_drop)
  have a_le: "a \<le> length xs"
    by (simp add: a_def length_takeWhile_le)
  have "drop b xs = drop (length (takeWhile isCommentRune rs)) (drop a xs)"
    by (simp add: b_def add.commute)
  then have ms: "drop b xs = ms"
    by (simp only: rs ms_def dropWhile_eq_drop)
  have "length (takeWhile isCommentRune rs) \<le> length rs"
    by (rule length_takeWhile_le)
  with rs a_le have b_le: "b \<le> length xs"
    by (auto simp add: b_def)
  have "drop i xs = drop (length (takeWhile IsSpace ms)) (drop b xs)"
    by (simp add: i_def add.commute)
  then have bd: "drop i xs = body"
    by (simp only: ms body_def dropWhile_eq_drop)
  have s1: "skipSpace xs 0 = a"
    using skipSpace_takeWhile [of 0 xs] by (simp add: a_def)
  have s2: "skipCommentRunes xs a False = (b, takeWhile isCommentRune rs \<noteq> [])"
    using skipCommentRunes_takeWhile [OF a_le, of False] by (simp add: rs b_def)
  have s3: "skipSpace xs b = i"
    using skipSpace_takeWhile [OF b_le] by (simp add: ms i_def)
  have pc: "parseComment line =
      (if takeWhile isCommentRune rs = [] then None
       else (let j = skipSuffix xs (int i) (int (length xs) - 1)
             in if int i \<ge> int (length xs) \<or> j < 0 \<or> int i \<ge> j then Some []
                else Some (take (nat (j + 1 - int i)) (drop i xs))))"
    by (simp add: parseComment_def xs_def [symmetric] s1 s2 s3 Let_def)
  show ?thesis
  proof (cases "takeWhile isCommentRune rs = []")
    case True
    with pc show ?thesis
      by (simp add: Let_def xs_def [symmetric] rs_def [symmetric])
  next
    case marker: False
    show ?thesis
    proof (cases "body = []")
      case True
      with bd have "length xs \<le> i" by simp
      with pc marker True show ?thesis
        by (simp add: Let_def xs_def [symmetric] rs_def [symmetric] ms_def [symmetric]
            body_def [symmetric])
    next
      case False
      with bd have lt: "i < length xs" by (metis drop_all not_le)
      from False obtain h t where ht: "body = h # t" by (cases body) auto
      have "\<not> IsSpace (hd body)"
        using False unfolding body_def by (rule hd_dropWhile)
      with ht have nsp: "\<not> IsSpace h" by simp
      from bd ht have t: "drop (Suc i) xs = t"
        by (metis drop_Suc list.sel(3) tl_drop)
      from bd ht have "length xs - i = Suc (length t)"
        by (metis length_drop length_Cons)
      then have tk: "take (nat (int (length xs) - 1 - int i)) t = t"
        using t by simp
      define d where "d = length (dropWhile IsSpace (rev t))"
      have j: "skipSuffix xs (int i) (int (length xs) - 1) = int i + int d"
        using skipSuffix_dropWhile [of "int i" "int (length xs) - 1" xs] lt
        by (simp add: t tk d_def)
      have content: "rev (dropWhile IsSpace (rev body)) = h # rev (dropWhile IsSpace (rev t))"
        using nsp by (simp add: ht dropWhile_snoc)
      have res: "take (Suc d) (drop i xs) = h # rev (dropWhile IsSpace (rev t))"
        by (simp add: bd ht d_def take_length_dropWhile_rev)
      have "parseComment line = (if d = 0 then Some [] else Some (h # rev (dropWhile IsSpace (rev t))))"
        using pc marker lt j res by (simp add: Let_def nat_add_distrib)
      moreover have "(length (rev (dropWhile IsSpace (rev body))) \<le> 1) = (d = 0)"
        by (simp add: content d_def)
      ultimately show ?thesis
        using marker content
        by (simp add: Let_def xs_def [symmetric] rs_def [symmetric] ms_def [symmetric]
            body_def [symmetric] del: length_rev)
    qed
  qed
qed

text \<open>
  Claim C2. A line without a comment symbol is no comment, and a line with nothing after
  its comment symbols is an empty comment that is not nil. But the test for the empty
  comment, \<^verbatim>\<open>i >= j\<close>, also holds when \<open>i\<close> and \<open>j\<close> meet on the only rune of the
  content: for \<^verbatim>\<open>//x\<close> and \<^verbatim>\<open>// x\<close> \<^verbatim>\<open>parseComment\<close> returns the empty slice, not
  the rune between the two cursors. With two runes of content it returns them.
\<close>

theorem parseComment_one_rune:
  "parseComment ''//x'' = Some []
   \<and> parseComment ''// x'' = Some []
   \<and> parseComment ''// xy '' = Some (runes_of ''xy'')
   \<and> parseComment ''  //  '' = Some []
   \<and> parseComment ''x := 1'' = None"
  by code_simp

section \<open>Estimates\<close>

text \<open>
  The rounding: \<^const>\<open>ilog2\<close> is the binary exponent, \<^const>\<open>roundEven\<close> is within one
  half of its argument, and a finite \<^term>\<open>round64 q\<close> is a multiple of the unit in the
  last place for the exponent of \<open>q\<close>, at most half a unit away from \<open>q\<close>.
\<close>

lemma bitlen_bounds:
  "0 < k \<Longrightarrow> 0 < bitlen k \<and> 2 ^ nat (bitlen k - 1) \<le> k \<and> k < 2 ^ nat (bitlen k)"
proof (induction k rule: bitlen.induct)
  case (1 k)
  show ?case
  proof (cases "k = 1")
    case True
    have "bitlen 1 = 1"
      by (subst bitlen.simps) (simp add: bitlen.simps)
    with True show ?thesis by simp
  next
    case False
    with "1.prems" have h: "0 < k div 2" by simp
    from "1.IH" h "1.prems" have ih: "0 < bitlen (k div 2)"
      "2 ^ nat (bitlen (k div 2) - 1) \<le> k div 2" "k div 2 < 2 ^ nat (bitlen (k div 2))"
      by simp_all
    have b: "bitlen k = 1 + bitlen (k div 2)"
      using "1.prems" by (subst bitlen.simps) simp
    from ih(1) have n: "nat (bitlen (k div 2)) = Suc (nat (bitlen (k div 2) - 1))"
      by simp
    have lo: "2 * 2 ^ nat (bitlen (k div 2) - 1) \<le> k"
      using ih(2) by linarith
    have hi: "k < 2 * 2 ^ nat (bitlen (k div 2))"
      using ih(3) by linarith
    show ?thesis
      using ih(1) lo hi by (simp add: b nat_add_distrib) (simp add: n)
  qed
qed

lemma pow2_power_int: "pow2 e = power_int 2 e"
  by (simp add: pow2_def power_int_def power_one_over)

lemma pow2_pos: "0 < pow2 e"
  by (simp add: pow2_def)

lemma pow2_diff: "pow2 (a - b) = pow2 a / pow2 b"
  by (simp add: pow2_power_int power_int_diff)

lemma bitlen_pow2:
  assumes "0 < k"
  shows "pow2 (bitlen k - 1) \<le> of_int k \<and> of_int k < pow2 (bitlen k)"
proof -
  from bitlen_bounds [OF assms]
  have pos: "0 < bitlen k" and lo: "2 ^ nat (bitlen k - 1) \<le> k" and hi: "k < 2 ^ nat (bitlen k)"
    by simp_all
  from lo have "(of_int (2 ^ nat (bitlen k - 1)) :: rat) \<le> of_int k"
    by (simp only: of_int_le_iff)
  moreover from hi have "(of_int k :: rat) < of_int (2 ^ nat (bitlen k))"
    by (simp only: of_int_less_iff)
  ultimately show ?thesis
    using pos by (simp add: pow2_def)
qed

lemma ilog2_bounds:
  assumes "0 < a"
  shows "pow2 (ilog2 a) \<le> a \<and> a < pow2 (ilog2 a + 1)"
proof -
  obtain p d where q: "quotient_of a = (p, d)" by (cases "quotient_of a")
  then have d: "0 < d" and a: "a = of_int p / of_int d"
    by (simp_all add: quotient_of_denom_pos quotient_of_div)
  from assms a d have p: "0 < p"
    by (simp add: zero_less_divide_iff)
  define e where "e = bitlen p - bitlen d"
  from bitlen_pow2 [OF p] have plo: "pow2 (bitlen p - 1) \<le> of_int p"
    and phi: "of_int p < pow2 (bitlen p)" by simp_all
  from bitlen_pow2 [OF d] have dlo: "pow2 (bitlen d - 1) \<le> of_int d"
    and dhi: "of_int d < pow2 (bitlen d)" by simp_all
  have ad: "a * of_int d = of_int p"
    using a d by simp
  have "a * pow2 (bitlen d - 1) \<le> a * of_int d"
    using dlo assms by simp
  with ad phi have "a * pow2 (bitlen d - 1) < pow2 (bitlen p)" by simp
  then have "a < pow2 (bitlen p) / pow2 (bitlen d - 1)"
    using pow2_pos [of "bitlen d - 1"] by (simp add: pos_less_divide_eq)
  then have up: "a < pow2 (e + 1)"
    using pow2_diff [of "bitlen p" "bitlen d - 1"] by (simp add: e_def algebra_simps)
  have "a * of_int d < a * pow2 (bitlen d)"
    using dhi assms by simp
  with ad plo have "pow2 (bitlen p - 1) < a * pow2 (bitlen d)" by simp
  then have "pow2 (bitlen p - 1) / pow2 (bitlen d) < a"
    using pow2_pos [of "bitlen d"] by (simp add: pos_divide_less_eq)
  then have low: "pow2 (e - 1) < a"
    using pow2_diff [of "bitlen p - 1" "bitlen d"] by (simp add: e_def algebra_simps)
  have il: "ilog2 a = (if pow2 e \<le> a then e else e - 1)"
    by (simp add: ilog2_def q e_def)
  show ?thesis
  proof (cases "pow2 e \<le> a")
    case True
    with il up show ?thesis by simp
  next
    case False
    with il low show ?thesis by simp
  qed
qed

lemma roundEven_near: "\<bar>of_int (roundEven m) - m\<bar> \<le> 1 / 2"
proof -
  have "of_int \<lfloor>m\<rfloor> \<le> m" and "m < of_int \<lfloor>m\<rfloor> + 1"
    by linarith+
  then show ?thesis
    by (auto simp add: roundEven_def Let_def)
qed

lemma round64_Finite:
  assumes "q \<noteq> 0" and "round64 q = Finite r"
  defines "ulp \<equiv> pow2 (max (ilog2 \<bar>q\<bar>) (- 1022) - 52)"
  shows "\<exists>n. r = of_int n * ulp \<and> \<bar>r - q\<bar> \<le> ulp / 2"
proof -
  define n where "n = roundEven (\<bar>q\<bar> / ulp)"
  have u: "0 < ulp" by (simp add: ulp_def pow2_pos)
  have "\<bar>of_int n - \<bar>q\<bar> / ulp\<bar> \<le> 1 / 2"
    unfolding n_def by (rule roundEven_near)
  then have "\<bar>of_int n - \<bar>q\<bar> / ulp\<bar> * ulp \<le> 1 / 2 * ulp"
    using u by (simp only: mult_le_cancel_right_pos)
  moreover have "\<bar>of_int n - \<bar>q\<bar> / ulp\<bar> * ulp = \<bar>of_int n * ulp - \<bar>q\<bar>\<bar>"
  proof -
    have "\<bar>of_int n - \<bar>q\<bar> / ulp\<bar> * ulp = \<bar>(of_int n - \<bar>q\<bar> / ulp) * ulp\<bar>"
      using u by (simp add: abs_mult)
    also have "(of_int n - \<bar>q\<bar> / ulp) * ulp = of_int n * ulp - \<bar>q\<bar>"
      using u by (simp add: left_diff_distrib)
    finally show ?thesis .
  qed
  ultimately have near: "\<bar>of_int n * ulp - \<bar>q\<bar>\<bar> \<le> ulp / 2" by simp
  from assms(1,2) have r: "r = (if q < 0 then - (of_int n * ulp) else of_int n * ulp)"
    by (auto simp add: round64_def Let_def n_def ulp_def split: if_splits)
  show ?thesis
  proof (cases "q < 0")
    case True
    with r near have "r = of_int (- n) * ulp" and "\<bar>r - q\<bar> \<le> ulp / 2"
      by (simp_all add: abs_if split: if_splits)
    then show ?thesis by blast
  next
    case False
    with r near have "r = of_int n * ulp" and "\<bar>r - q\<bar> \<le> ulp / 2"
      by (simp_all add: abs_if split: if_splits)
    then show ?thesis by blast
  qed
qed

text \<open>
  Values of the arithmetic: the constant 0.01, the quotients of 30, -30 and 10 by 60 (the
  last one is not the rational 1/6), the doubles nearest to 0.1 and to 0.6, two ties, and
  0.6 divided by 60, which is exactly the constant 0.01.
\<close>

lemma overflow64_power: "overflow64 = 2 ^ 1024"
  by (simp add: overflow64_def)

lemma estimateEpsilon_value: "estimateEpsilon = Finite (5764607523034235 / 2 ^ 59)"
  unfolding estimateEpsilon_def by code_simp

lemma div60_30: "div60 (Finite 30) = Finite (1 / 2)"
  by code_simp


lemma div60_10: "div60 (Finite 10) = Finite (6004799503160661 / 2 ^ 55)"
  by code_simp

lemma round64_tenth: "round64 (1 / 10) = Finite (3602879701896397 / 2 ^ 55)"
  by code_simp

lemma round64_tie_even:
  "round64 (1 + 1 / 2 ^ 53) = Finite 1 \<and> round64 (1 + 3 / 2 ^ 53) = Finite (1 + 2 / 2 ^ 52)"
  by code_simp

lemma round64_0_6: "round64 (6 / 10) = Finite (5404319552844595 / 2 ^ 53)"
  by code_simp

lemma div60_0_6: "div60 (Finite (5404319552844595 / 2 ^ 53)) = Finite (5764607523034235 / 2 ^ 59)"
  by code_simp

lemma zero_less_estimateEpsilon: "f64_less (Finite 0) estimateEpsilon"
  by (simp add: estimateEpsilon_value f64_less_def)

lemma ParseFloat_2: "ParseFloat go_library ''2'' = Some (Finite 2)"
  unfolding go_library_def by code_simp

lemma ParseFloat_30: "ParseFloat go_library ''30'' = Some (Finite 30)"
  unfolding go_library_def by code_simp

lemma ParseFloat_1_5: "ParseFloat go_library ''1.5'' = Some (Finite (3 / 2))"
  unfolding go_library_def by code_simp



lemma ParseFloat_10: "ParseFloat go_library ''10'' = Some (Finite 10)"
  unfolding go_library_def by code_simp

lemma ParseFloat_0_6:
  "ParseFloat go_library ''0.6'' = Some (Finite (5404319552844595 / 2 ^ 53))"
  unfolding go_library_def by code_simp

lemma parseEstimate_hours:
  "ParseFloat L s = Some f \<Longrightarrow> parseEstimate L (s @ ''h'') = Inr f"
  by (simp add: parseEstimate_def IsLetter_def nth_append)

lemma parseEstimate_minutes:
  "ParseFloat L s = Some f \<Longrightarrow> parseEstimate L (s @ ''m'') = Inr (div60 f)"
  by (simp add: parseEstimate_def IsLetter_def nth_append)

lemma parseEstimate_other_letter:
  "e \<noteq> [] \<Longrightarrow> IsLetter (of_char (last e)) \<Longrightarrow> last e \<noteq> CHR ''m'' \<Longrightarrow> last e \<noteq> CHR ''h''
   \<Longrightarrow> parseEstimate L e = Inl errCannotParseEstimate"
  by (simp add: parseEstimate_def last_conv_nth rune_m rune_h)

lemma parseEstimate_m:
  "e \<noteq> [] \<Longrightarrow> last e = CHR ''m'' \<Longrightarrow>
   parseEstimate L e = (case ParseFloat L (butlast e) of
                          Some f \<Rightarrow> Inr (div60 f)
                        | None \<Rightarrow> Inl errCannotParseEstimate)"
  by (simp add: parseEstimate_def last_conv_nth IsLetter_def butlast_conv_take
      split: option.splits)

lemma parseEstimate_h:
  "e \<noteq> [] \<Longrightarrow> last e = CHR ''h'' \<Longrightarrow>
   parseEstimate L e = (case ParseFloat L (butlast e) of
                          Some f \<Rightarrow> Inr f
                        | None \<Rightarrow> Inl errCannotParseEstimate)"
  by (simp add: parseEstimate_def last_conv_nth IsLetter_def butlast_conv_take
      split: option.splits)

lemma parseEstimate_no_unit:
  "e \<noteq> [] \<Longrightarrow> \<not> IsLetter (of_char (last e)) \<Longrightarrow>
   parseEstimate L e = (case ParseFloat L e of
                          Some f \<Rightarrow> Inr f
                        | None \<Rightarrow> Inl errCannotParseEstimate)"
  by (auto simp add: parseEstimate_def last_conv_nth Let_def IsLetter_def split: option.splits)

lemma parseEstimate_rejected:
  "ParseFloat L e = None \<Longrightarrow> ParseFloat L (butlast e) = None \<Longrightarrow>
   parseEstimate L e = Inl errCannotParseEstimate"
  by (simp add: parseEstimate_def Let_def butlast_conv_take)

lemma ParseFloat_5e: "ParseFloat go_library [CHR ''5'', CHR 0xC3, CHR 0xA9] = None"
  by (simp add: go_library_def ParseFloat_decimal_def signOf_def isDigit_def)

lemma ParseFloat_5e_cut: "ParseFloat go_library [CHR ''5'', CHR 0xC3] = None"
  by (simp add: go_library_def ParseFloat_decimal_def signOf_def isDigit_def)

text \<open>An estimate of 0.6 minutes is exactly the constant 0.01, and so not below it.\<close>

lemma parseEstimate_0_6m:
  "parseEstimate go_library ''0.6m'' = Inr estimateEpsilon
   \<and> \<not> f64_less estimateEpsilon estimateEpsilon"
proof
  have "parseEstimate go_library ''0.6m'' = Inr (div60 (Finite (5404319552844595 / 2 ^ 53)))"
    using parseEstimate_minutes [OF ParseFloat_0_6] by simp
  then show "parseEstimate go_library ''0.6m'' = Inr estimateEpsilon"
    by (simp only: div60_0_6 estimateEpsilon_value)
  show "\<not> f64_less estimateEpsilon estimateEpsilon"
    by (simp add: estimateEpsilon_value f64_less_def)
qed

text \<open>
  Claim C5. Where \<^verbatim>\<open>strconv.ParseFloat\<close> reads \<^verbatim>\<open>"2"\<close>, \<^verbatim>\<open>"30"\<close> and \<^verbatim>\<open>"1.5"\<close> as 2, 30
  and 1.5, \<^verbatim>\<open>parseEstimate\<close> returns 2 for \<^verbatim>\<open>"2h"\<close>, 0.5 for \<^verbatim>\<open>"30m"\<close> and 1.5 for
  \<^verbatim>\<open>"1.5"\<close>. Whatever \<^verbatim>\<open>ParseFloat\<close> computes, it fails on the empty string, on
  \<^verbatim>\<open>"abc"\<close>, on \<^verbatim>\<open>"5x"\<close> and on every string whose last byte is a letter other than
  \<^verbatim>\<open>m\<close> and \<^verbatim>\<open>h\<close>; after a final \<^verbatim>\<open>m\<close> it parses the rest and returns the
  \<^verbatim>\<open>float64\<close> quotient of that number by 60 (rounded as the division rounds, and an
  infinity or a NaN where the number is one); after a final \<^verbatim>\<open>h\<close> it parses the rest
  and returns it; with no final letter it parses the whole string and returns it. It also
  fails wherever \<^verbatim>\<open>ParseFloat\<close> rejects both the string and the string without its last
  byte, as it does when the last character is a letter outside ASCII, of which
  \<^verbatim>\<open>parseEstimate\<close> sees the last byte only.
\<close>

theorem parseEstimate_units:
  "(ParseFloat L ''2'' = Some (Finite 2) \<longrightarrow> parseEstimate L ''2h'' = Inr (Finite 2))
   \<and> (ParseFloat L ''30'' = Some (Finite 30)
        \<longrightarrow> parseEstimate L ''30m'' = Inr (Finite (1 / 2)))
   \<and> (ParseFloat L ''1.5'' = Some (Finite (3 / 2))
        \<longrightarrow> parseEstimate L ''1.5'' = Inr (Finite (3 / 2)))
   \<and> parseEstimate L [] = Inl errCannotParseEstimate
   \<and> parseEstimate L ''abc'' = Inl errCannotParseEstimate
   \<and> parseEstimate L ''5x'' = Inl errCannotParseEstimate
   \<and> (e1 \<noteq> [] \<and> IsLetter (of_char (last e1)) \<and> last e1 \<noteq> CHR ''m'' \<and> last e1 \<noteq> CHR ''h''
        \<longrightarrow> parseEstimate L e1 = Inl errCannotParseEstimate)
   \<and> (e2 \<noteq> [] \<and> last e2 = CHR ''m''
        \<longrightarrow> parseEstimate L e2 = (case ParseFloat L (butlast e2) of
                                     Some f \<Rightarrow> Inr (div60 f)
                                   | None \<Rightarrow> Inl errCannotParseEstimate))
   \<and> (e3 \<noteq> [] \<and> last e3 = CHR ''h''
        \<longrightarrow> parseEstimate L e3 = (case ParseFloat L (butlast e3) of
                                     Some f \<Rightarrow> Inr f
                                   | None \<Rightarrow> Inl errCannotParseEstimate))
   \<and> (e4 \<noteq> [] \<and> \<not> IsLetter (of_char (last e4))
        \<longrightarrow> parseEstimate L e4 = (case ParseFloat L e4 of
                                     Some f \<Rightarrow> Inr f
                                   | None \<Rightarrow> Inl errCannotParseEstimate))
   \<and> (ParseFloat L e5 = None \<and> ParseFloat L (butlast e5) = None
        \<longrightarrow> parseEstimate L e5 = Inl errCannotParseEstimate)"
proof -
  have a: "ParseFloat L ''2'' = Some (Finite 2) \<longrightarrow> parseEstimate L ''2h'' = Inr (Finite 2)"
    using parseEstimate_hours [of L "''2''" "Finite 2"] by simp
  have b: "ParseFloat L ''30'' = Some (Finite 30)
      \<longrightarrow> parseEstimate L ''30m'' = Inr (Finite (1 / 2))"
    using parseEstimate_minutes [of L "''30''" "Finite 30"] by (simp add: div60_30)
  have c: "ParseFloat L ''1.5'' = Some (Finite (3 / 2))
      \<longrightarrow> parseEstimate L ''1.5'' = Inr (Finite (3 / 2))"
    using parseEstimate_no_unit [of "''1.5''" L] by (simp add: IsLetter_def)
  have d: "parseEstimate L [] = Inl errCannotParseEstimate"
    by (simp add: parseEstimate_def)
  have e: "parseEstimate L ''abc'' = Inl errCannotParseEstimate"
    by (simp add: parseEstimate_def IsLetter_def)
  have f: "parseEstimate L ''5x'' = Inl errCannotParseEstimate"
    by (simp add: parseEstimate_def IsLetter_def)
  show ?thesis
    using a b c d e f parseEstimate_other_letter [of e1 L] parseEstimate_m [of e2 L]
      parseEstimate_h [of e3 L] parseEstimate_no_unit [of e4 L]
      parseEstimate_rejected [of L e5]
    by blast
qed

theorem parseEstimate_units_witness:
  "parseEstimate go_library ''2h'' = Inr (Finite 2)
   \<and> parseEstimate go_library ''30m'' = Inr (Finite (1 / 2))
   \<and> parseEstimate go_library ''1.5'' = Inr (Finite (3 / 2))
   \<and> parseEstimate go_library ''7d'' = Inl errCannotParseEstimate
   \<and> parseEstimate go_library ''10m'' = Inr (Finite (6004799503160661 / 2 ^ 55))
   \<and> parseEstimate go_library ''2h'' = (case ParseFloat go_library ''2'' of
                                          Some f \<Rightarrow> Inr f
                                        | None \<Rightarrow> Inl errCannotParseEstimate)
   \<and> parseEstimate go_library ''1.5'' = (case ParseFloat go_library ''1.5'' of
                                           Some f \<Rightarrow> Inr f
                                         | None \<Rightarrow> Inl errCannotParseEstimate)
   \<and> parseEstimate go_library [CHR ''5'', CHR 0xC3, CHR 0xA9] = Inl errCannotParseEstimate"
  using parseEstimate_units [of go_library "''7d''" "''10m''" "''2h''" "''1.5''"
      "[CHR ''5'', CHR 0xC3, CHR 0xA9]"]
    ParseFloat_2 ParseFloat_30 ParseFloat_1_5 ParseFloat_10 ParseFloat_5e ParseFloat_5e_cut
    div60_10
  by (simp add: IsLetter_def)



section \<open>The metadata line\<close>

lemma Contains_single: "Contains s [c] = (c \<in> set s)"
  by (induction s) auto

text \<open>\<^verbatim>\<open>parseIniProperties\<close> writes the three fields of the metadata, and no other.\<close>

lemma parseIniProperties_keeps:
  "Type (fst (parseIniProperties L t line)) = Type t
   \<and> Title (fst (parseIniProperties L t line)) = Title t
   \<and> File (fst (parseIniProperties L t line)) = File t
   \<and> Line (fst (parseIniProperties L t line)) = Line t
   \<and> Body (fst (parseIniProperties L t line)) = Body t"
  by (simp add: parseIniProperties_def Let_def split: sum.splits option.splits)

text \<open>
  Claim C3, as the code has it. On the record \<^verbatim>\<open>NewComment\<close> passes, whose category,
  issue and estimate are empty and zero, \<^verbatim>\<open>parseIniProperties\<close> returns
  \<^verbatim>\<open>errCannotParseIni\<close> exactly when the line has no \<^verbatim>\<open>=\<close>, or the ini parser accepts
  the line and the three fields are left at values that stand for "unset": the category
  is absent or empty, the issue is absent, not an integer or 0, and the estimate is absent,
  not an estimate or below 0.01 as \<^verbatim>\<open>float64\<close> compares. (When the ini parser rejects the line, its own error is
  returned.)
\<close>

theorem parseIniProperties_NotMetadata:
  "(snd (parseIniProperties L
          \<lparr>Type = ty, Title = ti, Body = b, File = f, Line = n,
           Issue = 0, Category = [], Estimate = Finite 0\<rparr> line) = Some errCannotParseIni) =
     (CHR ''='' \<notin> set line
      \<or> (\<exists>ini. goiniParse L line = Inr ini
           \<and> (case ini categoryIniKey of None \<Rightarrow> True | Some v \<Rightarrow> v = [])
           \<and> (case ini issueIniKey of
                 None \<Rightarrow> True
               | Some v \<Rightarrow> Atoi v = None \<or> Atoi v = Some 0)
           \<and> (case ini estimateIniKey of
                 None \<Rightarrow> True
               | Some v \<Rightarrow> (case parseEstimate L v of
                              Inl e \<Rightarrow> True
                            | Inr h \<Rightarrow> f64_less h estimateEpsilon))))
   \<and> (snd (parseIniProperties L
          \<lparr>Type = ty, Title = ti, Body = b, File = f, Line = n,
           Issue = 0, Category = [], Estimate = Finite 0\<rparr> line) = Some (errIni msg)) =
     (CHR ''='' \<in> set line \<and> goiniParse L line = Inl msg)"
  using zero_less_estimateEpsilon
  by (auto simp add: parseIniProperties_def Let_def Contains_single
      split: sum.splits option.splits)

theorem parseIniProperties_NotMetadata_witness:
  "\<exists>ini. goiniParse go_library ''issue=0'' = Inr ini
      \<and> (case ini categoryIniKey of None \<Rightarrow> True | Some v \<Rightarrow> v = [])
      \<and> (case ini issueIniKey of
            None \<Rightarrow> True
          | Some v \<Rightarrow> Atoi v = None \<or> Atoi v = Some 0)
      \<and> (case ini estimateIniKey of
            None \<Rightarrow> True
          | Some v \<Rightarrow> (case parseEstimate go_library v of
                         Inl e \<Rightarrow> True
                       | Inr h \<Rightarrow> f64_less h estimateEpsilon))"
proof -
  have "snd (parseIniProperties go_library
       \<lparr>Type = ''TODO'', Title = ''x'', Body = [], File = ''a.go'', Line = 0,
        Issue = 0, Category = [], Estimate = Finite 0\<rparr> ''issue=0'') = Some errCannotParseIni"
    by code_simp
  with parseIniProperties_NotMetadata [of go_library "''TODO''" "''x''" "[]" "''a.go''" 0
      "''issue=0''"]
  show ?thesis by simp
qed

text \<open>
  Claim C3, as the specification has it, fails at the line \<^verbatim>\<open>issue=0\<close>: the line has a
  \<^verbatim>\<open>=\<close>, the ini parser finds the key \<^verbatim>\<open>issue\<close>, its value is read as the integer 0
  without an error, and the call fails with \<^verbatim>\<open>errCannotParseIni\<close> all the same.
\<close>

theorem parseIniProperties_issue_zero:
  "CHR ''='' \<in> set ''issue=0''
   \<and> projr (goiniParse go_library ''issue=0'') issueIniKey = Some ''0''
   \<and> Atoi ''0'' = Some 0
   \<and> parseIniProperties go_library
       \<lparr>Type = ''TODO'', Title = ''x'', Body = [], File = ''a.go'', Line = 0,
        Issue = 0, Category = [], Estimate = Finite 0\<rparr> ''issue=0''
      = (\<lparr>Type = ''TODO'', Title = ''x'', Body = [], File = ''a.go'', Line = 0,
          Issue = 0, Category = [], Estimate = Finite 0\<rparr>, Some errCannotParseIni)"
  by code_simp

text \<open>The example of the specification.\<close>

lemma parseIniProperties_example:
  "parseIniProperties go_library
       \<lparr>Type = ''TODO'', Title = ''x'', Body = [], File = ''a.go'', Line = 0,
        Issue = 0, Category = [], Estimate = Finite 0\<rparr> ''category=bug issue=42 estimate=2h''
      = (\<lparr>Type = ''TODO'', Title = ''x'', Body = [], File = ''a.go'', Line = 0,
          Issue = 42, Category = ''bug'', Estimate = Finite 2\<rparr>, None)"
  by code_simp

section \<open>Records\<close>

lemma NewComment_Some:
  "body \<noteq> [] \<Longrightarrow>
   \<exists>c. NewComment L path n ctype body = Some c \<and> Type c = ctype \<and> Title c = body ! 0
     \<and> File c = path \<and> Line c = n"
  by (simp add: NewComment_def Let_def split_beta parseIniProperties_keeps)

text \<open>
  Claim C6. \<^verbatim>\<open>NewComment\<close> returns no record for an empty list of lines. For a list of
  one line the title is that line and the body is empty. For a longer list the title is
  the first line and the second line is given to \<^verbatim>\<open>parseIniProperties\<close>, on a record
  with no metadata yet: when that succeeds the body is the lines after the second, when it
  fails the body is the lines after the first, joined with newlines and trimmed of
  white space at both ends.
\<close>

theorem NewComment_title_body:
  "NewComment L path n ctype [] = None
   \<and> (\<exists>c. NewComment L path n ctype [title] = Some c \<and> Title c = title \<and> Body c = [])
   \<and> (\<exists>c. NewComment L path n ctype (title # meta # rest) = Some c
         \<and> Title c = title
         \<and> Body c = TrimSpace (Join
             (if snd (parseIniProperties L
                        \<lparr>Type = ctype, Title = title, Body = [], File = path, Line = n,
                         Issue = 0, Category = [], Estimate = Finite 0\<rparr> meta) = None
              then rest else meta # rest) [CHR 0x0A]))"
  by (simp add: NewComment_def Let_def split_beta parseIniProperties_keeps)

theorem NewComment_title_body_witness:
  "\<exists>c. NewComment go_library ''a.go'' 0 ''TODO''
         [''refactor parser'', ''category=core issue=7'', ''needs cleanup''] = Some c
     \<and> Title c = ''refactor parser'' \<and> Body c = ''needs cleanup''"
proof -
  have ini: "snd (parseIniProperties go_library
       \<lparr>Type = ''TODO'', Title = ''refactor parser'', Body = [], File = ''a.go'', Line = 0,
        Issue = 0, Category = [], Estimate = Finite 0\<rparr> ''category=core issue=7'') = None"
    by code_simp
  have trim: "TrimSpace (Join [''needs cleanup''] [CHR 0x0A]) = ''needs cleanup''"
    by code_simp
  from NewComment_title_body [of go_library "''a.go''" 0 "''TODO''" "''refactor parser''"
      "''category=core issue=7''" "[''needs cleanup'']"]
  obtain c where "NewComment go_library ''a.go'' 0 ''TODO''
         [''refactor parser'', ''category=core issue=7'', ''needs cleanup''] = Some c"
    and "Title c = ''refactor parser''"
    and "Body c = TrimSpace (Join
             (if snd (parseIniProperties go_library
                        \<lparr>Type = ''TODO'', Title = ''refactor parser'', Body = [], File = ''a.go'',
                         Line = 0, Issue = 0, Category = [], Estimate = Finite 0\<rparr>
                        ''category=core issue=7'') = None
              then [''needs cleanup''] else [''category=core issue=7'', ''needs cleanup''])
             [CHR 0x0A])"
    by blast
  with ini trim show ?thesis by simp
qed

text \<open>A second line that is no metadata stays in the body.\<close>

lemma NewComment_plain_second_line:
  "NewComment go_library ''a.go'' 0 ''TODO'' [''refactor parser'', ''see the notes'', ''and more'']
   = Some \<lparr>Type = ''TODO'', Title = ''refactor parser'',
           Body = ''see the notes'' @ [CHR 0x0A] @ ''and more'', File = ''a.go'', Line = 0,
           Issue = 0, Category = [], Estimate = Finite 0\<rparr>"
  by code_simp

lemma accountComment_record:
  assumes "body \<noteq> []"
  shows "\<exists>c. accountComment L r path n ty body = [c] \<and> Line c = n \<and> Type c = ty
           \<and> Title c = hd body"
proof -
  from NewComment_Some [OF assms]
  obtain c where "NewComment L (case Rel L r path of Some p \<Rightarrow> p | None \<Rightarrow> path) n ty body = Some c"
    and "Type c = ty" "Title c = body ! 0" "Line c = n"
    by blast
  with assms show ?thesis
    by (simp add: accountComment_def hd_conv_nth)
qed

section \<open>The deduplicator\<close>

lemma addComment_cases:
  "addComment L td c = td
   \<or> (md5hex L (Title c @ Body c) \<notin> dom (addedMap td)
      \<and> comments (addComment L td c) = comments td @ [c]
      \<and> dom (addedMap (addComment L td c))
          = insert (md5hex L (Title c @ Body c)) (dom (addedMap td)))"
  by (auto simp add: addComment_def Let_def)

lemma addComment_invariant:
  assumes d: "distinct (map (\<lambda>c. md5hex L (Title c @ Body c)) (comments td))"
    and s: "(\<lambda>c. md5hex L (Title c @ Body c)) ` set (comments td) \<subseteq> dom (addedMap td)"
  shows "distinct (map (\<lambda>c. md5hex L (Title c @ Body c)) (comments (addComment L td c)))
    \<and> (\<lambda>c. md5hex L (Title c @ Body c)) ` set (comments (addComment L td c))
        \<subseteq> dom (addedMap (addComment L td c))"
proof -
  consider "addComment L td c = td"
    | "md5hex L (Title c @ Body c) \<notin> dom (addedMap td)"
      "comments (addComment L td c) = comments td @ [c]"
      "dom (addedMap (addComment L td c))
          = insert (md5hex L (Title c @ Body c)) (dom (addedMap td))"
    using addComment_cases [of L td c] by blast
  then show ?thesis
  proof cases
    case 1
    with d s show ?thesis by simp
  next
    case 2
    from 2(1) s have "md5hex L (Title c @ Body c)
        \<notin> (\<lambda>c. md5hex L (Title c @ Body c)) ` set (comments td)"
      by blast
    with d s 2(2,3) show ?thesis
      by (simp add: subset_insertI2)
  qed
qed

lemma addComment_all_invariant:
  "distinct (map (\<lambda>c. md5hex L (Title c @ Body c)) (comments td)) \<Longrightarrow>
   (\<lambda>c. md5hex L (Title c @ Body c)) ` set (comments td) \<subseteq> dom (addedMap td) \<Longrightarrow>
   distinct (map (\<lambda>c. md5hex L (Title c @ Body c)) (comments (foldl (addComment L) td cs)))"
proof (induction cs arbitrary: td)
  case Nil
  then show ?case by simp
next
  case (Cons c cs)
  from addComment_invariant [OF Cons.prems, of c]
  have "distinct (map (\<lambda>c. md5hex L (Title c @ Body c))
      (comments (foldl (addComment L) (addComment L td c) cs)))"
    by (intro Cons.IH) simp_all
  then show ?case by simp
qed

lemma addComment_keeps_key:
  "k \<in> dom (addedMap td) \<Longrightarrow> k \<in> dom (addedMap (addComment L td c))"
  using addComment_cases [of L td c] by (elim disjE) simp_all

lemma addComment_all_keeps_key:
  "k \<in> dom (addedMap td) \<Longrightarrow> k \<in> dom (addedMap (foldl (addComment L) td cs))"
proof (induction cs arbitrary: td)
  case Nil
  then show ?case by simp
next
  case (Cons c cs)
  from Cons.prems have "k \<in> dom (addedMap (addComment L td c))"
    by (rule addComment_keeps_key)
  then have "k \<in> dom (addedMap (foldl (addComment L) (addComment L td c) cs))"
    by (rule Cons.IH)
  then show ?case by simp
qed

lemma addComment_known: "md5hex L (Title c @ Body c) \<in> dom (addedMap td) \<Longrightarrow> addComment L td c = td"
  by (auto simp add: addComment_def Let_def)

lemma distinct_filter_le_1:
  assumes same: "\<And>x y. P x \<Longrightarrow> P y \<Longrightarrow> f x = f y"
  shows "distinct (map f xs) \<Longrightarrow> length (filter P xs) \<le> 1"
proof (induction xs)
  case Nil
  then show ?case by simp
next
  case (Cons x xs)
  from Cons.prems have notin: "f x \<notin> f ` set xs" and d: "distinct (map f xs)"
    by simp_all
  show ?case
  proof (cases "P x")
    case True
    have "\<not> P y" if "y \<in> set xs" for y
    proof
      assume "P y"
      with True have "f x = f y" by (rule same)
      with that notin show False by blast
    qed
    then have "filter P xs = []"
      by (simp add: filter_empty_conv)
    with True show ?thesis by simp
  next
    case False
    with Cons.IH [OF d] show ?thesis by simp
  qed
qed

text \<open>The collection holds records that were admitted, unchanged.\<close>

lemma addComment_all_subset:
  "set (comments (foldl (addComment L) td cs)) \<subseteq> set (comments td) \<union> set cs"
proof (induction cs arbitrary: td)
  case Nil
  then show ?case by simp
next
  case (Cons c cs)
  have "set (comments (addComment L td c)) \<subseteq> set (comments td) \<union> {c}"
    using addComment_cases [of L td c] by auto
  with Cons.IH [of "addComment L td c"] show ?case by auto
qed

text \<open>
  Claim C7. After any sequence of calls of \<^verbatim>\<open>addComment\<close> on a new generator, the
  collection holds at most one record with a given title and a given body, whatever their
  files and lines, and whatever the digest function: once a call has accepted a record,
  every later call with a record of the same fingerprint (the digest of the title followed
  by the body) leaves the generator as it is.
\<close>

theorem addComment_deduplicates:
  "length (filter (\<lambda>c. Title c = t \<and> Body c = b)
      (comments (foldl (addComment L) (NewToDoGenerator r mw mc) cs))) \<le> 1
   \<and> (comments (addComment L td c) \<noteq> comments td \<and>
       md5hex L (Title c' @ Body c') = md5hex L (Title c @ Body c) \<longrightarrow>
         addComment L (foldl (addComment L) (addComment L td c) cs') c'
           = foldl (addComment L) (addComment L td c) cs')"
proof
  have "distinct (map (\<lambda>c. md5hex L (Title c @ Body c))
      (comments (foldl (addComment L) (NewToDoGenerator r mw mc) cs)))"
    by (rule addComment_all_invariant) (simp_all add: NewToDoGenerator_def)
  then show "length (filter (\<lambda>c. Title c = t \<and> Body c = b)
      (comments (foldl (addComment L) (NewToDoGenerator r mw mc) cs))) \<le> 1"
    by (rule distinct_filter_le_1 [rotated]) simp
next
  show "comments (addComment L td c) \<noteq> comments td \<and>
       md5hex L (Title c' @ Body c') = md5hex L (Title c @ Body c) \<longrightarrow>
         addComment L (foldl (addComment L) (addComment L td c) cs') c'
           = foldl (addComment L) (addComment L td c) cs'"
  proof
    assume a: "comments (addComment L td c) \<noteq> comments td \<and>
       md5hex L (Title c' @ Body c') = md5hex L (Title c @ Body c)"
    then have "md5hex L (Title c @ Body c) \<in> dom (addedMap (addComment L td c))"
      using addComment_cases [of L td c] by auto
    then have "md5hex L (Title c' @ Body c')
        \<in> dom (addedMap (foldl (addComment L) (addComment L td c) cs'))"
      using a by (simp add: addComment_all_keeps_key)
    then show "addComment L (foldl (addComment L) (addComment L td c) cs') c'
           = foldl (addComment L) (addComment L td c) cs'"
      by (rule addComment_known)
  qed
qed

lemma addComment_first:
  "comments (addComment go_library (NewToDoGenerator ''/r'' 3 30)
      \<lparr>Type = ''TODO'', Title = ''refactor the parser'', Body = ''needs cleanup'',
        File = ''a.go'', Line = 0, Issue = 0, Category = [], Estimate = Finite 0\<rparr>)
   = [\<lparr>Type = ''TODO'', Title = ''refactor the parser'', Body = ''needs cleanup'',
        File = ''a.go'', Line = 0, Issue = 0, Category = [], Estimate = Finite 0\<rparr>]"
  by code_simp

theorem addComment_deduplicates_witness:
  "length (filter (\<lambda>c. Title c = ''refactor the parser'' \<and> Body c = ''needs cleanup'')
      (comments (foldl (addComment go_library) (NewToDoGenerator ''/r'' 3 30)
      [\<lparr>Type = ''TODO'', Title = ''refactor the parser'', Body = ''needs cleanup'',
        File = ''a.go'', Line = 0, Issue = 0, Category = [], Estimate = Finite 0\<rparr>,
       \<lparr>Type = ''TODO'', Title = ''refactor the parser'', Body = ''needs cleanup'',
        File = ''b.go'', Line = 7, Issue = 0, Category = [], Estimate = Finite 0\<rparr>]))) \<le> 1
   \<and> addComment go_library
        (addComment go_library (NewToDoGenerator ''/r'' 3 30)
          \<lparr>Type = ''TODO'', Title = ''refactor the parser'', Body = ''needs cleanup'',
            File = ''a.go'', Line = 0, Issue = 0, Category = [], Estimate = Finite 0\<rparr>)
        \<lparr>Type = ''TODO'', Title = ''refactor the parser'', Body = ''needs cleanup'',
          File = ''b.go'', Line = 7, Issue = 0, Category = [], Estimate = Finite 0\<rparr>
      = addComment go_library (NewToDoGenerator ''/r'' 3 30)
          \<lparr>Type = ''TODO'', Title = ''refactor the parser'', Body = ''needs cleanup'',
            File = ''a.go'', Line = 0, Issue = 0, Category = [], Estimate = Finite 0\<rparr>"
  using addComment_deduplicates [of "''refactor the parser''" "''needs cleanup''" go_library
      "''/r''" 3 30
      "[\<lparr>Type = ''TODO'', Title = ''refactor the parser'', Body = ''needs cleanup'',
        File = ''a.go'', Line = 0, Issue = 0, Category = [], Estimate = Finite 0\<rparr>,
       \<lparr>Type = ''TODO'', Title = ''refactor the parser'', Body = ''needs cleanup'',
        File = ''b.go'', Line = 7, Issue = 0, Category = [], Estimate = Finite 0\<rparr>]"
      "NewToDoGenerator ''/r'' 3 30"
      "\<lparr>Type = ''TODO'', Title = ''refactor the parser'', Body = ''needs cleanup'',
        File = ''a.go'', Line = 0, Issue = 0, Category = [], Estimate = Finite 0\<rparr>"
      "\<lparr>Type = ''TODO'', Title = ''refactor the parser'', Body = ''needs cleanup'',
        File = ''b.go'', Line = 7, Issue = 0, Category = [], Estimate = Finite 0\<rparr>" "[]"]
    addComment_first
  by (simp add: NewToDoGenerator_def)

section \<open>The scan of a file\<close>

lemma titleLine_Some:
  "titleLine L line = Some (ty, t) \<Longrightarrow> ty \<noteq> [] \<and> t \<noteq> []"
  by (auto simp add: titleLine_def string_of_nonempty
      split: option.splits sum.splits dest: parseToDoTitle_Some)

lemma scanLine_title:
  "titleLine L line = Some (ty, t) \<Longrightarrow>
   scanLine L r path st line =
     Inr \<lparr>todo = [t], lastType = ty, lastStart = lineNumber st,
          lineNumber = lineNumber st + 1,
          spawned = (if lastType st \<noteq> [] then
                       spawned st @ accountComment L r path (lastStart st) (lastType st) (todo st)
                     else spawned st)\<rparr>"
  by (auto simp add: titleLine_def scanLine_def Let_def split: option.splits sum.splits)

lemma scanLine_continue:
  "titleLine L line = None \<Longrightarrow> parseComment line = Some c \<Longrightarrow>
   scanLine L r path st line =
     Inr (if lastType st \<noteq> [] then
            st\<lparr>lineNumber := lineNumber st + 1, todo := todo st @ [string_of c]\<rparr>
          else st\<lparr>lineNumber := lineNumber st + 1\<rparr>)"
  using parseToDoTitle_find [of L c]
  by (auto simp add: titleLine_def scanLine_def Let_def split: option.splits sum.splits)

lemma scanLine_end:
  "parseComment line = None \<Longrightarrow>
   scanLine L r path st line =
     Inr (if lastType st \<noteq> [] then
            st\<lparr>lineNumber := lineNumber st + 1,
               spawned := spawned st
                 @ accountComment L r path (lastStart st) (lastType st) (todo st),
               lastType := []\<rparr>
          else st\<lparr>lineNumber := lineNumber st + 1\<rparr>)"
  by (simp add: scanLine_def Let_def)

lemma titlesUpTo_Suc:
  "titlesUpTo L lines (Suc k) =
     titlesUpTo L lines k
       @ (case titleLine L (lines ! k) of None \<Rightarrow> [] | Some (ty, t) \<Rightarrow> [(int k, ty, t)])"
  by (simp add: titlesUpTo_def)

lemma accountComment_key:
  assumes "body \<noteq> []"
  shows "map (\<lambda>c. (Line c, Type c, Title c)) (accountComment L r path n ty body)
           = [(n, ty, hd body)]"
proof -
  from accountComment_record [OF assms, of L r path n ty]
  obtain c where "accountComment L r path n ty body = [c]" "Line c = n" "Type c = ty"
    "Title c = hd body"
    by blast
  then show ?thesis by simp
qed

lemma scan_inv_step:
  assumes inv: "scan_inv L lines st"
    and more: "nat (lineNumber st) < length lines"
    and step: "scanLine L r path st (lines ! nat (lineNumber st)) = Inr st'"
  shows "scan_inv L lines st' \<and> lineNumber st' = lineNumber st + 1"
proof -
  let ?line = "lines ! nat (lineNumber st)"
  let ?key = "\<lambda>c. (Line c, Type c, Title c)"
  let ?block = "accountComment L r path (lastStart st) (lastType st) (todo st)"
  from inv have pos: "0 \<le> lineNumber st" by (simp add: scan_inv_def)
  from inv have body: "lastType st \<noteq> [] \<Longrightarrow> todo st \<noteq> []"
    by (auto simp add: scan_inv_def)
  from inv have sofar: "map ?key (spawned st)
      @ (if lastType st \<noteq> [] then [(lastStart st, lastType st, hd (todo st))] else [])
      = titlesUpTo L lines (nat (lineNumber st))"
    by (simp add: scan_inv_def)
  have closed: "map ?key (if lastType st \<noteq> [] then spawned st @ ?block else spawned st)
      = titlesUpTo L lines (nat (lineNumber st))"
    using sofar body by (cases "lastType st = []") (simp_all add: accountComment_key)
  have n1: "nat (lineNumber st + 1) = Suc (nat (lineNumber st))"
    using pos by simp
  show ?thesis
  proof (cases "titleLine L ?line")
    case (Some p)
    obtain ty t where p: "p = (ty, t)" by (cases p)
    from Some p have tl: "titleLine L ?line = Some (ty, t)" by simp
    from titleLine_Some [OF tl] have ne: "ty \<noteq> []" by simp
    from step scanLine_title [OF tl, of r path st]
    have st': "st' = \<lparr>todo = [t], lastType = ty, lastStart = lineNumber st,
          lineNumber = lineNumber st + 1,
          spawned = (if lastType st \<noteq> [] then spawned st @ ?block else spawned st)\<rparr>"
      by simp
    have "map ?key (spawned st') @ [(lineNumber st, ty, t)]
        = titlesUpTo L lines (Suc (nat (lineNumber st)))"
      using closed pos by (simp add: st' titlesUpTo_Suc tl)
    then show ?thesis
      using pos more ne by (simp add: st' scan_inv_def n1)
  next
    case None
    then have same: "titlesUpTo L lines (Suc (nat (lineNumber st)))
        = titlesUpTo L lines (nat (lineNumber st))"
      by (simp add: titlesUpTo_Suc)
    show ?thesis
    proof (cases "parseComment ?line")
      case (Some c)
      from step scanLine_continue [OF None Some, of r path st]
      have st': "st' = (if lastType st \<noteq> [] then
            st\<lparr>lineNumber := lineNumber st + 1, todo := todo st @ [string_of c]\<rparr>
          else st\<lparr>lineNumber := lineNumber st + 1\<rparr>)"
        by simp
      show ?thesis
      proof (cases "lastType st = []")
        case True
        with sofar pos more show ?thesis
          by (simp add: st' scan_inv_def n1 same)
      next
        case False
        with body have "hd (todo st @ [string_of c]) = hd (todo st)" by simp
        with False sofar pos more show ?thesis
          by (simp add: st' scan_inv_def n1 same)
      qed
    next
      case no_comment: None
      from step scanLine_end [OF no_comment, of L r path st]
      have st': "st' = (if lastType st \<noteq> [] then
            st\<lparr>lineNumber := lineNumber st + 1, spawned := spawned st @ ?block,
               lastType := []\<rparr>
          else st\<lparr>lineNumber := lineNumber st + 1\<rparr>)"
        by simp
      show ?thesis
      proof (cases "lastType st = []")
        case True
        with sofar pos more show ?thesis
          by (simp add: st' scan_inv_def n1 same)
      next
        case False
        with closed pos more show ?thesis
          by (simp add: st' scan_inv_def n1 same)
      qed
    qed
  qed
qed

lemma scan_inv_loop:
  "scan_inv L lines st \<Longrightarrow> rest = drop (nat (lineNumber st)) lines \<Longrightarrow>
   scanLines L r path st rest = Inr st' \<Longrightarrow>
   scan_inv L lines st' \<and> nat (lineNumber st') = length lines"
proof (induction rest arbitrary: st)
  case Nil
  from Nil(2) have "length lines \<le> nat (lineNumber st)" by simp
  moreover from Nil(1) have "nat (lineNumber st) \<le> length lines"
    by (simp add: scan_inv_def)
  moreover from Nil(3) have "st' = st" by simp
  ultimately show ?case using Nil(1) by simp
next
  case (Cons line rest)
  from Cons.prems(2) have more: "nat (lineNumber st) < length lines"
    by (metis drop_all list.distinct(1) not_le)
  from Cons.prems(2) more have line: "line = lines ! nat (lineNumber st)"
    and rest: "rest = drop (Suc (nat (lineNumber st))) lines"
    by (simp_all add: Cons_nth_drop_Suc [symmetric])
  from Cons.prems(3) obtain st1 where s1: "scanLine L r path st line = Inr st1"
    and s2: "scanLines L r path st1 rest = Inr st'"
    by (auto split: sum.splits)
  from scan_inv_step [OF Cons.prems(1) more s1 [unfolded line]]
  have i1: "scan_inv L lines st1" and n1: "lineNumber st1 = lineNumber st + 1"
    by simp_all
  from Cons.prems(1) have "0 \<le> lineNumber st" by (simp add: scan_inv_def)
  with n1 rest have "rest = drop (nat (lineNumber st1)) lines"
    by (simp add: nat_add_distrib)
  from Cons.IH [OF i1 this s2] show ?case .
qed

text \<open>The same list with the lines counted from 1.\<close>

lemma titlesUpTo_from_1:
  "titlesUpTo L lines k =
     concat (map (\<lambda>N. case titleLine L (lines ! (N - 1)) of
                          None \<Rightarrow> []
                        | Some (ty, t) \<Rightarrow> [(int N - 1, ty, t)]) [1..<Suc k])"
proof -
  have "[1..<Suc k] = map Suc [0..<k]"
    by (simp add: map_Suc_upt)
  moreover have "(\<lambda>n. case titleLine L (lines ! n) of
                       None \<Rightarrow> []
                     | Some (ty, t) \<Rightarrow> [(int n, ty, t)])
      = (\<lambda>n. case titleLine L (lines ! (Suc n - 1)) of
                 None \<Rightarrow> []
               | Some (ty, t) \<Rightarrow> [(int (Suc n) - 1, ty, t)])"
    by (rule ext) (simp split: option.splits)
  ultimately show ?thesis
    by (simp only: titlesUpTo_def map_map comp_def)
qed

text \<open>The loop does not panic.\<close>

lemma scanLine_Inr: "\<exists>st'. scanLine L r path st line = Inr st'"
proof (cases "titleLine L line")
  case None
  then show ?thesis
    by (cases "parseComment line") (simp_all add: scanLine_continue scanLine_end)
next
  case (Some p)
  then show ?thesis
    by (cases p) (simp add: scanLine_title)
qed

lemma scanLines_Inr: "\<exists>st'. scanLines L r path st xs = Inr st'"
proof (induction xs arbitrary: st)
  case Nil
  then show ?case by simp
next
  case (Cons x xs)
  from scanLine_Inr [of L r path st x] obtain st1 where "scanLine L r path st x = Inr st1"
    by blast
  with Cons.IH [of st1] show ?case by simp
qed

text \<open>
  Claim C1, as the code has it. \<^verbatim>\<open>parseFile\<close> ends without a panic, and the records it
  hands to \<^verbatim>\<open>addComment\<close> (of which, by \<open>addComment_all_subset\<close>, the records of the
  collection are some) are the title lines of the file, one record for each title line
  and in the order of the lines. The record of the title line with number \<open>N\<close>, counted
  from 1, has the type and the title of that line, and its \<^verbatim>\<open>Line\<close> is \<open>N - 1\<close>: the
  loop stores \<^verbatim>\<open>lineNumber - 1\<close> after it has counted the line.
\<close>

theorem parseFile_line_index:
  "\<exists>cs. parseFile L r path (Some lines) = Inr cs
     \<and> map (\<lambda>c. (Line c, Type c, Title c)) cs
         = concat (map (\<lambda>N. case titleLine L (lines ! (N - 1)) of
                              None \<Rightarrow> []
                            | Some (ty, t) \<Rightarrow> [(int N - 1, ty, t)]) [1..<Suc (length lines)])"
proof -
  let ?init = "\<lparr>todo = [], lastType = [], lastStart = 0, lineNumber = 0, spawned = []\<rparr>"
  let ?key = "\<lambda>c. (Line c, Type c, Title c)"
  from scanLines_Inr [of L r path ?init lines] obtain st where
    st: "scanLines L r path ?init lines = Inr st" by blast
  define cs where "cs = flushLast L r path st"
  from st have pf: "parseFile L r path (Some lines) = Inr cs"
    by (simp add: parseFile_def cs_def)
  have "scan_inv L lines ?init" by (simp add: scan_inv_def titlesUpTo_def)
  from scan_inv_loop [OF this _ st]
  have inv: "scan_inv L lines st" and n: "nat (lineNumber st) = length lines"
    by simp_all
  from inv n have sofar: "map ?key (spawned st)
      @ (if lastType st \<noteq> [] then [(lastStart st, lastType st, hd (todo st))] else [])
      = titlesUpTo L lines (length lines)"
    by (simp add: scan_inv_def)
  from inv have body: "lastType st \<noteq> [] \<Longrightarrow> todo st \<noteq> []"
    by (auto simp add: scan_inv_def)
  have "map ?key cs = titlesUpTo L lines (length lines)"
    using sofar body
    by (cases "lastType st = []") (simp_all add: cs_def flushLast_def accountComment_key)
  with pf show ?thesis
    by (simp add: titlesUpTo_from_1 del: upt_Suc)
qed

text \<open>
  A file that repeats a title on its lines 1 and 3: the two records have the lines 0
  and 2.
\<close>

theorem parseFile_line_index_witness:
  "map (\<lambda>c. (Line c, Type c, Title c))
     [\<lparr>Type = ''TODO'', Title = ''same'', Body = [], File = ''a.go'', Line = 0,
       Issue = 0, Category = [], Estimate = Finite 0\<rparr>,
      \<lparr>Type = ''TODO'', Title = ''same'', Body = [], File = ''a.go'', Line = 2,
       Issue = 0, Category = [], Estimate = Finite 0\<rparr>]
   = concat (map (\<lambda>N. case titleLine go_library
                              ([''// TODO: same'', ''x := 1'', ''// TODO: same''] ! (N - 1)) of
                        None \<Rightarrow> []
                      | Some (ty, t) \<Rightarrow> [(int N - 1, ty, t)])
               [1..<Suc (length [''// TODO: same'', ''x := 1'', ''// TODO: same''])])"
proof -
  have "parseFile go_library ''/r'' ''/r/a.go''
      (Some [''// TODO: same'', ''x := 1'', ''// TODO: same''])
    = Inr [\<lparr>Type = ''TODO'', Title = ''same'', Body = [], File = ''a.go'', Line = 0,
            Issue = 0, Category = [], Estimate = Finite 0\<rparr>,
           \<lparr>Type = ''TODO'', Title = ''same'', Body = [], File = ''a.go'', Line = 2,
            Issue = 0, Category = [], Estimate = Finite 0\<rparr>]"
    by code_simp
  with parseFile_line_index [of go_library "''/r''" "''/r/a.go''"
      "[''// TODO: same'', ''x := 1'', ''// TODO: same'']"]
  show ?thesis by (simp del: upt_Suc)
qed

text \<open>
  Claim C1, as the specification has it, fails for a file whose first line is a title
  line: the record has line 0, not 1.
\<close>

theorem parseFile_first_line_is_0:
  "parseFile go_library ''/r'' ''/r/a.go'' (Some [''// TODO: refactor parser''])
   = Inr [\<lparr>Type = ''TODO'', Title = ''refactor parser'', Body = [], File = ''a.go'', Line = 0,
          Issue = 0, Category = [], Estimate = Finite 0\<rparr>]"
  by code_simp

text \<open>The end-to-end example of the specification.\<close>

lemma parseFile_example:
  "parseFile go_library ''/r'' ''/r/a.go''
     (Some [''// TODO: refactor parser'', ''// category=core issue=7'', ''// needs cleanup'',
            ''x := 1''])
   = Inr [\<lparr>Type = ''TODO'', Title = ''refactor parser'', Body = ''needs cleanup'',
          File = ''a.go'', Line = 0, Issue = 7, Category = ''core'', Estimate = Finite 0\<rparr>]"
  by code_simp

subsection \<open>Two title lines in a row\<close>

lemma scanLines_append:
  "scanLines L r path st (xs @ ys) =
     (case scanLines L r path st xs of
        Inl e \<Rightarrow> Inl e
      | Inr st1 \<Rightarrow> scanLines L r path st1 ys)"
  by (induction xs arbitrary: st) (simp_all split: sum.splits)

lemma scanLine_lineNumber:
  "scanLine L r path st line = Inr st' \<Longrightarrow> lineNumber st' = lineNumber st + 1"
proof (cases "titleLine L line")
  case None
  assume "scanLine L r path st line = Inr st'"
  with None show ?thesis
    by (cases "parseComment line") (auto simp add: scanLine_continue scanLine_end split: if_splits)
next
  case (Some p)
  assume "scanLine L r path st line = Inr st'"
  with Some show ?thesis
    by (cases p) (auto simp add: scanLine_title)
qed

lemma scanLines_lineNumber:
  "scanLines L r path st xs = Inr st' \<Longrightarrow> lineNumber st' = lineNumber st + int (length xs)"
proof (induction xs arbitrary: st)
  case Nil
  then show ?case by simp
next
  case (Cons x xs)
  from Cons.prems obtain st1 where s1: "scanLine L r path st x = Inr st1"
    and s2: "scanLines L r path st1 xs = Inr st'"
    by (auto split: sum.splits)
  from Cons.IH [OF s2] scanLine_lineNumber [OF s1] show ?case by simp
qed

lemma scanLine_spawned:
  "scanLine L r path st line = Inr st' \<Longrightarrow> \<exists>more. spawned st' = spawned st @ more"
proof (cases "titleLine L line")
  case None
  assume "scanLine L r path st line = Inr st'"
  with None show ?thesis
    by (cases "parseComment line") (auto simp add: scanLine_continue scanLine_end split: if_splits)
next
  case (Some p)
  assume "scanLine L r path st line = Inr st'"
  with Some show ?thesis
    by (cases p) (auto simp add: scanLine_title)
qed

lemma scanLines_flushLast:
  "scanLines L r path st xs = Inr st' \<Longrightarrow> \<exists>more. flushLast L r path st' = spawned st @ more"
proof (induction xs arbitrary: st)
  case Nil
  then show ?case by (simp add: flushLast_def)
next
  case (Cons x xs)
  from Cons.prems obtain st1 where s1: "scanLine L r path st x = Inr st1"
    and s2: "scanLines L r path st1 xs = Inr st'"
    by (auto split: sum.splits)
  from Cons.IH [OF s2] scanLine_spawned [OF s1] show ?case by auto
qed

lemma scanLines_open_block:
  "lastType st \<noteq> [] \<Longrightarrow> scanLines L r path st xs = Inr st' \<Longrightarrow>
   \<exists>ext after. flushLast L r path st'
      = spawned st @ accountComment L r path (lastStart st) (lastType st) (todo st @ ext) @ after"
proof (induction xs arbitrary: st)
  case Nil
  then show ?case by (auto simp add: flushLast_def intro: exI [of _ "[]"])
next
  case (Cons x xs)
  from Cons.prems obtain st1 where s1: "scanLine L r path st x = Inr st1"
    and s2: "scanLines L r path st1 xs = Inr st'"
    by (auto split: sum.splits)
  let ?block = "accountComment L r path (lastStart st) (lastType st) (todo st)"
  show ?case
  proof (cases "titleLine L x = None \<and> parseComment x \<noteq> None")
    case True
    then obtain c where c: "parseComment x = Some c" and n: "titleLine L x = None" by auto
    from s1 scanLine_continue [OF n c, of r path st] Cons.prems(1)
    have st1: "st1 = st\<lparr>lineNumber := lineNumber st + 1, todo := todo st @ [string_of c]\<rparr>"
      by simp
    then have "lastType st1 \<noteq> []" using Cons.prems(1) by simp
    from Cons.IH [OF this s2] obtain ext after where
      "flushLast L r path st' = spawned st1
         @ accountComment L r path (lastStart st1) (lastType st1) (todo st1 @ ext) @ after"
      by blast
    then have "flushLast L r path st' = spawned st
         @ accountComment L r path (lastStart st) (lastType st) (todo st @ (string_of c # ext))
         @ after"
      by (simp add: st1)
    then show ?thesis by blast
  next
    case False
    have "spawned st1 = spawned st @ ?block"
    proof (cases "titleLine L x")
      case None
      with False have "parseComment x = None" by simp
      from s1 scanLine_end [OF this, of L r path st] Cons.prems(1) show ?thesis by auto
    next
      case (Some p)
      then obtain ty t where "titleLine L x = Some (ty, t)" by (cases p) simp
      from s1 scanLine_title [OF this, of r path st] Cons.prems(1) show ?thesis by auto
    qed
    moreover from scanLines_flushLast [OF s2] obtain more where
      "flushLast L r path st' = spawned st1 @ more" by blast
    ultimately have "flushLast L r path st' = spawned st
         @ accountComment L r path (lastStart st) (lastType st) (todo st @ []) @ more"
      by simp
    then show ?thesis by blast
  qed
qed

lemma accountComment_title_only:
  "\<exists>c. accountComment L r path n ty [t] = [c] \<and> Line c = n \<and> Type c = ty \<and> Title c = t
     \<and> Body c = []"
  by (simp add: accountComment_def NewComment_def)

text \<open>
  Claim C8. Two title lines in a row make two blocks. From any state of the loop, the
  first title line opens a block whose only line is its title; the second title line
  hands that block over as it is, with the index of its line, and opens a block whose only
  line is the second title. For the whole file: wherever the two lines stand, the records
  of the file hold, one after the other, the record of the first block, made of its title
  alone, and the record of the second block, whose first line is the second title.
\<close>

theorem two_title_lines:
  assumes t1: "titleLine L l1 = Some (ty1, t1)" and t2: "titleLine L l2 = Some (ty2, t2)"
  shows "(\<exists>st1 st2. scanLine L r path st l1 = Inr st1
            \<and> lastType st1 = ty1 \<and> todo st1 = [t1] \<and> lastStart st1 = lineNumber st
            \<and> scanLine L r path st1 l2 = Inr st2
            \<and> spawned st2 = spawned st1 @ accountComment L r path (lineNumber st) ty1 [t1]
            \<and> lastType st2 = ty2 \<and> todo st2 = [t2] \<and> lastStart st2 = lineNumber st + 1)
    \<and> (\<exists>before c1 c2 ext after.
          parseFile L r path (Some (pre @ [l1, l2] @ post)) = Inr (before @ [c1, c2] @ after)
          \<and> accountComment L r path (int (length pre)) ty1 [t1] = [c1]
          \<and> accountComment L r path (int (length pre) + 1) ty2 (t2 # ext) = [c2]
          \<and> Title c1 = t1 \<and> Body c1 = [] \<and> Title c2 = t2)"
proof
  from titleLine_Some [OF t1] have ne1: "ty1 \<noteq> []" by simp
  from titleLine_Some [OF t2] have ne2: "ty2 \<noteq> []" by simp
  show "\<exists>st1 st2. scanLine L r path st l1 = Inr st1
            \<and> lastType st1 = ty1 \<and> todo st1 = [t1] \<and> lastStart st1 = lineNumber st
            \<and> scanLine L r path st1 l2 = Inr st2
            \<and> spawned st2 = spawned st1 @ accountComment L r path (lineNumber st) ty1 [t1]
            \<and> lastType st2 = ty2 \<and> todo st2 = [t2] \<and> lastStart st2 = lineNumber st + 1"
    using ne1 by (simp add: scanLine_title [OF t1] scanLine_title [OF t2])
  let ?init = "\<lparr>todo = [], lastType = [], lastStart = 0, lineNumber = 0, spawned = []\<rparr>"
  from scanLines_Inr [of L r path ?init pre] obtain st where
    pre: "scanLines L r path ?init pre = Inr st" by blast
  from scanLines_lineNumber [OF pre] have n: "lineNumber st = int (length pre)" by simp
  define st1 where "st1 = \<lparr>todo = [t1], lastType = ty1, lastStart = lineNumber st,
          lineNumber = lineNumber st + 1,
          spawned = (if lastType st \<noteq> [] then
                       spawned st @ accountComment L r path (lastStart st) (lastType st) (todo st)
                     else spawned st)\<rparr>"
  define st2 where "st2 = \<lparr>todo = [t2], lastType = ty2, lastStart = lineNumber st + 1,
          lineNumber = lineNumber st + 2,
          spawned = spawned st1 @ accountComment L r path (lineNumber st) ty1 [t1]\<rparr>"
  have s1: "scanLine L r path st l1 = Inr st1"
    by (simp add: scanLine_title [OF t1] st1_def)
  have s2: "scanLine L r path st1 l2 = Inr st2"
    using ne1 by (simp add: scanLine_title [OF t2] st1_def st2_def)
  from scanLines_Inr [of L r path st2 post] obtain st' where
    post: "scanLines L r path st2 post = Inr st'" by blast
  have all: "scanLines L r path ?init (pre @ [l1, l2] @ post) = Inr st'"
    by (simp add: scanLines_append pre s1 s2 post)
  have "lastType st2 \<noteq> []" using ne2 by (simp add: st2_def)
  from scanLines_open_block [OF this post] obtain ext after where
    "flushLast L r path st' = spawned st2
       @ accountComment L r path (lastStart st2) (lastType st2) (todo st2 @ ext) @ after"
    by blast
  then have fl: "flushLast L r path st' = spawned st1
       @ accountComment L r path (int (length pre)) ty1 [t1]
       @ accountComment L r path (int (length pre) + 1) ty2 (t2 # ext) @ after"
    by (simp add: st2_def n)
  from accountComment_title_only [of L r path "int (length pre)" ty1 t1]
  obtain c1 where c1: "accountComment L r path (int (length pre)) ty1 [t1] = [c1]"
    "Title c1 = t1" "Body c1 = []" by blast
  from accountComment_record [of "t2 # ext" L r path "int (length pre) + 1" ty2]
  obtain c2 where c2: "accountComment L r path (int (length pre) + 1) ty2 (t2 # ext) = [c2]"
    "Title c2 = t2" by auto
  have "parseFile L r path (Some (pre @ [l1, l2] @ post)) = Inr (spawned st1 @ [c1, c2] @ after)"
    using all fl c1(1) c2(1) by (simp add: parseFile_def)
  with c1 c2 show "\<exists>before c1 c2 ext after.
          parseFile L r path (Some (pre @ [l1, l2] @ post)) = Inr (before @ [c1, c2] @ after)
          \<and> accountComment L r path (int (length pre)) ty1 [t1] = [c1]
          \<and> accountComment L r path (int (length pre) + 1) ty2 (t2 # ext) = [c2]
          \<and> Title c1 = t1 \<and> Body c1 = [] \<and> Title c2 = t2"
    by blast
qed

lemma titleLine_one_thing:
  "titleLine go_library ''// TODO: one thing'' = Some (''TODO'', ''one thing'')"
  by code_simp

lemma titleLine_other_thing:
  "titleLine go_library ''// TODO: other thing'' = Some (''TODO'', ''other thing'')"
  by code_simp

theorem two_title_lines_witness:
  "(\<exists>st1 st2. scanLine go_library ''/r'' ''/r/a.go''
              \<lparr>todo = [], lastType = [], lastStart = 0, lineNumber = 0, spawned = []\<rparr>
              ''// TODO: one thing'' = Inr st1
            \<and> lastType st1 = ''TODO'' \<and> todo st1 = [''one thing''] \<and> lastStart st1 = 0
            \<and> scanLine go_library ''/r'' ''/r/a.go'' st1 ''// TODO: other thing'' = Inr st2
            \<and> spawned st2 = spawned st1
                 @ accountComment go_library ''/r'' ''/r/a.go'' 0 ''TODO'' [''one thing'']
            \<and> lastType st2 = ''TODO'' \<and> todo st2 = [''other thing''] \<and> lastStart st2 = 1)
    \<and> (\<exists>before c1 c2 ext after.
          parseFile go_library ''/r'' ''/r/a.go''
              (Some [''// TODO: one thing'', ''// TODO: other thing''])
            = Inr (before @ [c1, c2] @ after)
          \<and> accountComment go_library ''/r'' ''/r/a.go'' 0 ''TODO'' [''one thing''] = [c1]
          \<and> accountComment go_library ''/r'' ''/r/a.go'' 1 ''TODO'' (''other thing'' # ext) = [c2]
          \<and> Title c1 = ''one thing'' \<and> Body c1 = [] \<and> Title c2 = ''other thing'')"
  using two_title_lines [OF titleLine_one_thing titleLine_other_thing, of "''/r''" "''/r/a.go''"
      "\<lparr>todo = [], lastType = [], lastStart = 0, lineNumber = 0, spawned = []\<rparr>" "[]" "[]"]
  by simp

end
